theory Spec2Isabelle
  imports Complex_Main "HOL-Library.Word" "HOL-Library.Monad_Syntax"
begin

section \<open>The 8-bit graymap library image8bit.c\<close>

text \<open>
  A shallow embedding of \<^verbatim>\<open>image8bit.c\<close>. Conventions:

  \<^item> \<^verbatim>\<open>uint8\<close> is \<open>8 word\<close>; a conversion to \<^verbatim>\<open>uint8\<close> is \<open>of_int\<close>, which reduces
    modulo 256 as C does.
  \<^item> \<^verbatim>\<open>int\<close> is the type \<open>int\<close> of mathematical integers. Where a value from outside
    can leave the range of a 32-bit \<^verbatim>\<open>int\<close>, the model says what happens: \<^verbatim>\<open>fscanf\<close> stores
    the low 32 bits of the number it reads, and the counters and sums of \<^verbatim>\<open>ImageBlur\<close>, which
    depend on the arguments \<open>dx\<close> and \<open>dy\<close>, abort on overflow (signed overflow is undefined
    in C). \<^verbatim>\<open>ImageCreate\<close> computes \<open>width * height\<close> as an \<^verbatim>\<open>int\<close>, so the positions and
    indices of an image it made stay in range.
  \<^item> \<^verbatim>\<open>double\<close> is \<open>real\<close>: products are taken exactly. The conversion of a \<^verbatim>\<open>double\<close>
    to \<^verbatim>\<open>int\<close> is modelled with its range check.
  \<^item> An \<^verbatim>\<open>Image\<close> is a pointer. The program state holds the heap (pointer to struct, the
    raster stored with the struct), the global \<^verbatim>\<open>errCause\<close> and the files.
  \<^item> Every function returns an \<open>option\<close>: \<open>None\<close> is a failed \<^verbatim>\<open>assert\<close> (the program
    aborts) or an access outside an allocated object. A function that returns normally
    returns \<open>Some\<close> of its result and of the state it leaves.
  \<^item> The instrumentation counter \<^verbatim>\<open>PIXMEM\<close> and the saved \<^verbatim>\<open>errno\<close> are not modelled.
\<close>

subsection \<open>Data model\<close>

type_synonym uint8 = "8 word"

type_synonym Image = nat

definition NULL :: Image where
  "NULL = 0"

definition PixMax :: uint8 where
  "PixMax = 255"

record image =
  width :: int
  height :: int
  maxval :: int
  pixel :: "uint8 list"

record pstate =
  heap :: "Image \<Rightarrow> image option"
  errCause :: string
  files :: "string \<Rightarrow> uint8 list option"

definition ImageErrMsg :: "pstate \<Rightarrow> string" where
  "ImageErrMsg s = errCause s"

definition check :: "bool \<Rightarrow> string \<Rightarrow> pstate \<Rightarrow> bool \<times> pstate" where
  "check condition failmsg s =
     (condition, s\<lparr>errCause := (if condition then [] else failmsg)\<rparr>)"

text \<open>\<^verbatim>\<open>assert(b)\<close>: the program goes on when \<open>b\<close> holds and aborts otherwise.\<close>

definition c_assert :: "bool \<Rightarrow> unit option" where
  "c_assert b = (if b then Some () else None)"

text \<open>
  The value of an \<^verbatim>\<open>int\<close> expression whose mathematical value is \<open>v\<close>: the program goes
  on with \<open>v\<close> when a 32-bit \<^verbatim>\<open>int\<close> holds it, and has no defined behaviour otherwise.
\<close>

definition c_int :: "int \<Rightarrow> int option" where
  "c_int v = (if - (2 ^ 31) \<le> v \<and> v < 2 ^ 31 then Some v else None)"

text \<open>
  \<^verbatim>\<open>img->\<close>: the struct a pointer refers to. \<^verbatim>\<open>assert(img != NULL)\<close> precedes every
  such access in the source; a pointer to no allocated struct has no defined access either.
\<close>

definition deref :: "pstate \<Rightarrow> Image \<Rightarrow> image option" where
  "deref s img = (if img = NULL then None else heap s img)"

text \<open>
  The invariants of an image value (section 3 of the specification): non-negative
  dimensions, \<open>0 < maxval \<le> 255\<close>, and a raster of exactly \<open>width * height\<close> samples.
\<close>

definition wf_image :: "image \<Rightarrow> bool" where
  "wf_image I = (0 \<le> width I \<and> 0 \<le> height I \<and> 0 < maxval I \<and> maxval I \<le> 255
     \<and> int (length (pixel I)) = width I * height I)"

subsection \<open>Loops\<close>

text \<open>
  \<^verbatim>\<open>for (int i = lo; i < n; i++) body\<close>, where the body updates a state and may abort.
\<close>

function for_range :: "int \<Rightarrow> int \<Rightarrow> (int \<Rightarrow> 's \<Rightarrow> 's option) \<Rightarrow> 's \<Rightarrow> 's option" where
  "for_range i n body s =
     (if i < n then
        (case body i s of None \<Rightarrow> None | Some s' \<Rightarrow> for_range (i + 1) n body s')
      else Some s)"
  by pat_completeness auto
termination
  by (relation "measure (\<lambda>(i, n, body, s). nat (n - i))") auto

declare for_range.simps [simp del]

text \<open>
  \<^verbatim>\<open>for (int i = lo; i <= n; i++) body\<close>: here \<^verbatim>\<open>i++\<close> can overflow, when \<open>n\<close> is the
  largest \<^verbatim>\<open>int\<close>.
\<close>

function for_upto :: "int \<Rightarrow> int \<Rightarrow> (int \<Rightarrow> 's \<Rightarrow> 's option) \<Rightarrow> 's \<Rightarrow> 's option" where
  "for_upto i n body s =
     (if i \<le> n then
        (case body i s of
           None \<Rightarrow> None
         | Some s' \<Rightarrow> if 2 ^ 31 \<le> i + 1 then None else for_upto (i + 1) n body s')
      else Some s)"
  by pat_completeness auto
termination
  by (relation "measure (\<lambda>(i, n, body, s). nat (n + 1 - i))") auto

declare for_upto.simps [simp del]

text \<open>
  The same loop with a body that may execute \<^verbatim>\<open>return r\<close>: the body yields \<open>Return r\<close>
  then, and \<open>Next\<close> when it falls through to the next iteration.
\<close>

datatype 'r flow = Next | Return 'r

function for_return :: "int \<Rightarrow> int \<Rightarrow> (int \<Rightarrow> 'r flow option) \<Rightarrow> 'r flow option" where
  "for_return i n body =
     (if i < n then
        (case body i of
           None \<Rightarrow> None
         | Some (Return r) \<Rightarrow> Some (Return r)
         | Some Next \<Rightarrow> for_return (i + 1) n body)
      else Some Next)"
  by pat_completeness auto
termination
  by (relation "measure (\<lambda>(i, n, body). nat (n - i))") auto

declare for_return.simps [simp del]

subsection \<open>Creation and destruction\<close>

text \<open>
  The outcome of the two \<^verbatim>\<open>malloc\<close> calls of \<^verbatim>\<open>ImageCreate\<close>: the first fails, the
  second fails, or both succeed and the struct is at the given address.
\<close>

datatype alloc = StructFails | PixelFails | Allocated Image

definition ImageCreate :: "alloc \<Rightarrow> int \<Rightarrow> int \<Rightarrow> uint8 \<Rightarrow> pstate \<Rightarrow> (Image \<times> pstate) option" where
  "ImageCreate al w h mv s = do {
     c_assert (w \<ge> 0);
     c_assert (h \<ge> 0);
     c_assert (0 < mv \<and> mv \<le> PixMax);
     (case al of
        StructFails \<Rightarrow>
          Some (NULL, s\<lparr>errCause := ''Memory allocation for Image structure failed''\<rparr>)
      | PixelFails \<Rightarrow>
          Some (NULL, s\<lparr>errCause := ''Memory allocation for pixel array failed''\<rparr>)
      | Allocated p \<Rightarrow>
          let numPixels = w * h;
              I = \<lparr>width = w, height = h, maxval = uint mv,
                   pixel = replicate (nat numPixels) 0\<rparr>
          in Some (p, s\<lparr>heap := (heap s)(p := Some I)\<rparr>))
   }"

text \<open>
  \<^verbatim>\<open>ImageDestroy(Image *imgp)\<close> takes the pointer variable and returns its new value with
  the state.
\<close>

definition ImageDestroy :: "Image \<Rightarrow> pstate \<Rightarrow> (Image \<times> pstate) option" where
  "ImageDestroy img s =
     (if img = NULL then Some (img, s)
      else Some (NULL, s\<lparr>heap := (heap s)(img := None)\<rparr>))"

subsection \<open>Positions and pixels\<close>

definition ImageValidPos :: "pstate \<Rightarrow> Image \<Rightarrow> int \<Rightarrow> int \<Rightarrow> bool option" where
  "ImageValidPos s img x y = do {
     I \<leftarrow> deref s img;
     Some ((0 \<le> x \<and> x < width I) \<and> (0 \<le> y \<and> y < height I))
   }"

definition ImageValidRect :: "pstate \<Rightarrow> Image \<Rightarrow> int \<Rightarrow> int \<Rightarrow> int \<Rightarrow> int \<Rightarrow> bool option" where
  "ImageValidRect s img x y w h = do {
     I \<leftarrow> deref s img;
     Some ((0 \<le> x \<and> x + w \<le> width I) \<and> (0 \<le> y \<and> y + h \<le> height I))
   }"

definition G :: "pstate \<Rightarrow> Image \<Rightarrow> int \<Rightarrow> int \<Rightarrow> int option" where
  "G s img x y = do {
     I \<leftarrow> deref s img;
     c_assert (0 \<le> x \<and> x < width I);
     c_assert (0 \<le> y \<and> y < height I);
     let index = y * width I + x;
     c_assert (0 \<le> index \<and> index < width I * height I);
     Some index
   }"

text \<open>
  \<^verbatim>\<open>img->pixel[index]\<close> is defined when \<open>index\<close> lies in the allocated raster; the last
  \<open>c_assert\<close> of the two accessors stands for that.
\<close>

definition ImageGetPixel :: "pstate \<Rightarrow> Image \<Rightarrow> int \<Rightarrow> int \<Rightarrow> uint8 option" where
  "ImageGetPixel s img x y = do {
     I \<leftarrow> deref s img;
     ok \<leftarrow> ImageValidPos s img x y;
     c_assert ok;
     index \<leftarrow> G s img x y;
     c_assert (nat index < length (pixel I));
     Some (pixel I ! nat index)
   }"

definition ImageSetPixel :: "pstate \<Rightarrow> Image \<Rightarrow> int \<Rightarrow> int \<Rightarrow> uint8 \<Rightarrow> pstate option" where
  "ImageSetPixel s img x y level = do {
     I \<leftarrow> deref s img;
     ok \<leftarrow> ImageValidPos s img x y;
     c_assert ok;
     index \<leftarrow> G s img x y;
     c_assert (nat index < length (pixel I));
     Some (s\<lparr>heap := (heap s)(img := Some (I\<lparr>pixel := (pixel I)[nat index := level]\<rparr>))\<rparr>)
   }"

subsection \<open>Point operator: brighten\<close>

text \<open>
  \<^verbatim>\<open>(int)d\<close> for a \<^verbatim>\<open>double d\<close>: the fractional part is discarded (truncation toward
  zero); the behaviour is undefined when the integral part is not representable in a
  32-bit \<^verbatim>\<open>int\<close>.
\<close>

definition int_of_double :: "real \<Rightarrow> int option" where
  "int_of_double d =
     (let t = (if 0 \<le> d then \<lfloor>d\<rfloor> else \<lceil>d\<rceil>)
      in if - (2 ^ 31) \<le> t \<and> t < 2 ^ 31 then Some t else None)"

definition ImageBrighten :: "pstate \<Rightarrow> Image \<Rightarrow> real \<Rightarrow> pstate option" where
  "ImageBrighten s img factor = do {
     I \<leftarrow> deref s img;
     let width = width I;
     let height = height I;
     let maxval = (of_int (maxval I) :: uint8);
     for_range 0 height (\<lambda>y s.
       for_range 0 width (\<lambda>x s. do {
         currentPixel \<leftarrow> ImageGetPixel s img x y;
         t \<leftarrow> int_of_double (real_of_int (uint currentPixel) * factor);
         let newPixel = (of_int t :: uint8);
         let newPixel = (if newPixel > maxval then maxval else newPixel);
         ImageSetPixel s img x y newPixel
       }) s) s
   }"

subsection \<open>Geometric operator: rotate\<close>

definition ImageRotate :: "alloc \<Rightarrow> pstate \<Rightarrow> Image \<Rightarrow> (Image \<times> pstate) option" where
  "ImageRotate al s img = do {
     I \<leftarrow> deref s img;
     let width = width I;
     let height = height I;
     (rotatedImage, s) \<leftarrow> ImageCreate al height width (of_int (maxval I)) s;
     if rotatedImage = NULL then Some (NULL, s)
     else do {
       s \<leftarrow> for_range 0 height (\<lambda>y s.
              for_range 0 width (\<lambda>x s. do {
                pixel \<leftarrow> ImageGetPixel s img x y;
                ImageSetPixel s rotatedImage (height - y - 1) x pixel
              }) s) s;
       Some (rotatedImage, s)
     }
   }"

subsection \<open>Compositor: paste, match, locate\<close>

text \<open>
  The loop bounds \<^verbatim>\<open>img2->height\<close> and \<^verbatim>\<open>img2->width\<close> are read once: the loop bodies
  store into rasters only, so every later read of them gives the same value.
\<close>

definition ImagePaste :: "pstate \<Rightarrow> Image \<Rightarrow> int \<Rightarrow> int \<Rightarrow> Image \<Rightarrow> pstate option" where
  "ImagePaste s img1 x y img2 = do {
     _ \<leftarrow> deref s img1;
     I2 \<leftarrow> deref s img2;
     ok \<leftarrow> ImageValidRect s img1 x y (width I2) (height I2);
     c_assert ok;
     for_range 0 (height I2) (\<lambda>j s.
       for_range 0 (width I2) (\<lambda>i s. do {
         pixel \<leftarrow> ImageGetPixel s img2 i j;
         ImageSetPixel s img1 (x + i) (y + j) pixel
       }) s) s
   }"

definition ImageMatchSubImage :: "pstate \<Rightarrow> Image \<Rightarrow> int \<Rightarrow> int \<Rightarrow> Image \<Rightarrow> int option" where
  "ImageMatchSubImage s img1 x y img2 = do {
     _ \<leftarrow> deref s img1;
     I2 \<leftarrow> deref s img2;
     ok \<leftarrow> ImageValidPos s img1 x y;
     c_assert ok;
     r \<leftarrow> for_return 0 (height I2) (\<lambda>j.
            for_return 0 (width I2) (\<lambda>i. do {
              pixel1 \<leftarrow> ImageGetPixel s img1 (x + i) (y + j);
              pixel2 \<leftarrow> ImageGetPixel s img2 i j;
              if pixel1 \<noteq> pixel2 then Some (Return 0) else Some Next
            }));
     (case r of Return v \<Rightarrow> Some v | Next \<Rightarrow> Some 1)
   }"

text \<open>
  \<^verbatim>\<open>ImageLocateSubImage(img1, px, py, img2)\<close>: \<open>px\<close> and \<open>py\<close> are the values of
  \<^verbatim>\<open>*px\<close> and \<^verbatim>\<open>*py\<close> at the call; the result is the returned \<^verbatim>\<open>int\<close> with their
  values at the return.
\<close>

definition ImageLocateSubImage ::
  "pstate \<Rightarrow> Image \<Rightarrow> int \<Rightarrow> int \<Rightarrow> Image \<Rightarrow> (int \<times> int \<times> int) option" where
  "ImageLocateSubImage s img1 px py img2 = do {
     I1 \<leftarrow> deref s img1;
     I2 \<leftarrow> deref s img2;
     let width1 = width I1;
     let height1 = height I1;
     let width2 = width I2;
     let height2 = height I2;
     r \<leftarrow> for_return 0 (height1 - height2 + 1) (\<lambda>y.
            for_return 0 (width1 - width2 + 1) (\<lambda>x. do {
              m \<leftarrow> ImageMatchSubImage s img1 x y img2;
              if m \<noteq> 0 then Some (Return (1, x, y)) else Some Next
            }));
     (case r of Return v \<Rightarrow> Some v | Next \<Rightarrow> Some (0, px, py))
   }"

subsection \<open>Blur\<close>

text \<open>
  The body of the second pair of loops declares \<^verbatim>\<open>sum\<close> and \<^verbatim>\<open>count\<close>, accumulates them
  over the neighbourhood, and ends: it holds no store to any image. Its \<^verbatim>\<open>int\<close>
  computations depend on \<open>dx\<close> and \<open>dy\<close> and are checked: \<^verbatim>\<open>-dy\<close>, \<^verbatim>\<open>-dx\<close>, \<^verbatim>\<open>j++\<close>,
  \<^verbatim>\<open>i++\<close>, \<^verbatim>\<open>x + i\<close>, \<^verbatim>\<open>y + j\<close>, \<^verbatim>\<open>sum += ...\<close> and \<^verbatim>\<open>count++\<close>.
\<close>

definition ImageBlur :: "alloc \<Rightarrow> pstate \<Rightarrow> Image \<Rightarrow> int \<Rightarrow> int \<Rightarrow> pstate option" where
  "ImageBlur al s img dx dy = do {
     I \<leftarrow> deref s img;
     let width = width I;
     let height = height I;
     (originalImage, s) \<leftarrow> ImageCreate al width height (of_int (maxval I)) s;
     if originalImage = NULL then Some s
     else do {
       s \<leftarrow> for_range 0 height (\<lambda>y s.
              for_range 0 width (\<lambda>x s. do {
                pixel \<leftarrow> ImageGetPixel s img x y;
                ImageSetPixel s originalImage x y pixel
              }) s) s;
       for_range 0 height (\<lambda>y s.
         for_range 0 width (\<lambda>x s. do {
           j0 \<leftarrow> c_int (- dy);
           (sum, count) \<leftarrow>
             for_upto j0 dy (\<lambda>j sc. do {
               i0 \<leftarrow> c_int (- dx);
               for_upto i0 dx (\<lambda>i (sum, count). do {
                 xi \<leftarrow> c_int (x + i);
                 yj \<leftarrow> c_int (y + j);
                 ok \<leftarrow> ImageValidPos s originalImage xi yj;
                 if ok then do {
                   p \<leftarrow> ImageGetPixel s originalImage xi yj;
                   sum \<leftarrow> c_int (sum + uint p);
                   count \<leftarrow> c_int (count + 1);
                   Some (sum, count)
                 } else Some (sum, count)
               }) sc
             }) (0 :: int, 0 :: int);
           Some s
         }) s) s
     }
   }"

subsection \<open>Streams and the formats of \<^verbatim>\<open>fscanf\<close> and \<^verbatim>\<open>fprintf\<close>\<close>

text \<open>
  A file is its bytes; a stream open for reading is the list of the bytes not yet read.
  Each call of \<^verbatim>\<open>fscanf\<close> in the source assigns at most one variable and is compared
  with 1: its model returns \<open>Some v\<close> when the call returns 1 and assigns \<open>v\<close>, \<open>None\<close>
  when it returns 0 or \<^verbatim>\<open>EOF\<close>, and the stream it leaves.
\<close>

definition byte :: "char \<Rightarrow> uint8" where
  "byte c = of_char c"

definition newline :: uint8 where
  "newline = 0x0A"

definition isspace :: "uint8 \<Rightarrow> bool" where
  "isspace c = (c = 0x20 \<or> c = 0x09 \<or> c = 0x0A \<or> c = 0x0B \<or> c = 0x0C \<or> c = 0x0D)"

definition isdigit :: "uint8 \<Rightarrow> bool" where
  "isdigit c = (0x30 \<le> c \<and> c \<le> 0x39)"

text \<open>The value of a sequence of decimal digits, most significant first.\<close>

definition digits_value :: "uint8 list \<Rightarrow> int" where
  "digits_value ds = foldl (\<lambda>v d. 10 * v + (uint d - 0x30)) 0 ds"

text \<open>
  What \<^verbatim>\<open>%d\<close> stores in an \<^verbatim>\<open>int\<close> for a number of value \<open>v\<close>. The C standard leaves a
  value that the \<^verbatim>\<open>int\<close> cannot hold undefined; the C library converts with \<^verbatim>\<open>strtol\<close>,
  which stops at the ends of the 64-bit range of \<^verbatim>\<open>long\<close>, and stores the low 32 bits:
  4294967297 is stored as 1.
\<close>

definition store_d :: "int \<Rightarrow> int" where
  "store_d v = sint (word_of_int (max (- (2 ^ 63)) (min (2 ^ 63 - 1) v)) :: 32 word)"

text \<open>
  The directive \<^verbatim>\<open>%d\<close>: white space is skipped, then an optional sign and the longest
  run of digits are read. With no digit the directive fails.
\<close>

definition scan_d :: "uint8 list \<Rightarrow> int option \<times> uint8 list" where
  "scan_d f =
     (let f0 = dropWhile isspace f in
      case f0 of
        [] \<Rightarrow> (None, [])
      | a # f1 \<Rightarrow>
          let f2 = (if a = byte CHR ''-'' \<or> a = byte CHR ''+'' then f1 else f0);
              ds = takeWhile isdigit f2
          in if ds = [] then (None, f2)
             else (Some (store_d (if a = byte CHR ''-'' then - digits_value ds
                                  else digits_value ds)),
                   dropWhile isdigit f2))"

text \<open>\<^verbatim>\<open>fscanf(f, "P%c ", &c)\<close>\<close>

definition fscanf_P_c :: "uint8 list \<Rightarrow> uint8 option \<times> uint8 list" where
  "fscanf_P_c f =
     (case f of
        [] \<Rightarrow> (None, [])
      | a # f1 \<Rightarrow>
          if a \<noteq> byte CHR ''P'' then (None, f)
          else (case f1 of
                  [] \<Rightarrow> (None, [])
                | c # f2 \<Rightarrow> (Some c, dropWhile isspace f2)))"

text \<open>
  \<^verbatim>\<open>fscanf(f, "#%*[^\n]%c", &c)\<close>: the scan set needs at least one byte other than a
  newline after the \<^verbatim>\<open>#\<close>.
\<close>

definition fscanf_comment :: "uint8 list \<Rightarrow> uint8 option \<times> uint8 list" where
  "fscanf_comment f =
     (case f of
        [] \<Rightarrow> (None, [])
      | a # f1 \<Rightarrow>
          if a \<noteq> byte CHR ''#'' then (None, f)
          else if takeWhile (\<lambda>b. b \<noteq> newline) f1 = [] then (None, f1)
          else (case dropWhile (\<lambda>b. b \<noteq> newline) f1 of
                  [] \<Rightarrow> (None, [])
                | c # f2 \<Rightarrow> (Some c, f2)))"

text \<open>\<^verbatim>\<open>fscanf(f, "%d ", &v)\<close>, \<^verbatim>\<open>fscanf(f, "%d", &v)\<close> and \<^verbatim>\<open>fscanf(f, "%c", &c)\<close>\<close>

definition fscanf_d_sp :: "uint8 list \<Rightarrow> int option \<times> uint8 list" where
  "fscanf_d_sp f =
     (case scan_d f of
        (None, f') \<Rightarrow> (None, f')
      | (Some v, f') \<Rightarrow> (Some v, dropWhile isspace f'))"

definition fscanf_d :: "uint8 list \<Rightarrow> int option \<times> uint8 list" where
  "fscanf_d f = scan_d f"

definition fscanf_c :: "uint8 list \<Rightarrow> uint8 option \<times> uint8 list" where
  "fscanf_c f = (case f of [] \<Rightarrow> (None, []) | c # f' \<Rightarrow> (Some c, f'))"

text \<open>The loop of \<^verbatim>\<open>skipComments\<close>, with its counter \<open>i\<close>.\<close>

function skipComments_loop :: "int \<Rightarrow> uint8 list \<Rightarrow> int \<times> uint8 list" where
  "skipComments_loop i f =
     (case fscanf_comment f of
        (None, f') \<Rightarrow> (i, f')
      | (Some c, f') \<Rightarrow> if c = newline then skipComments_loop (i + 1) f' else (i, f'))"
  by pat_completeness auto
termination
proof (relation "measure (\<lambda>(i, f). length f)")
  show "wf (measure (\<lambda>(i :: int, f :: uint8 list). length f))" by simp
next
  fix i :: int and f f' :: "uint8 list" and r :: "uint8 option" and c :: uint8
  assume a: "(r, f') = fscanf_comment f" and r: "r = Some c" and "c = newline"
  then obtain b f1 where f: "f = b # f1"
    by (cases f) (auto simp: fscanf_comment_def)
  from a r f have "dropWhile (\<lambda>b. b \<noteq> newline) f1 = c # f'"
    by (auto simp: fscanf_comment_def split: if_splits list.splits)
  then have "length (c # f') \<le> length f1"
    by (metis length_dropWhile_le)
  with f show "((i + 1, f'), (i, f)) \<in> measure (\<lambda>(i, f). length f)"
    by simp
qed

declare skipComments_loop.simps [simp del]

definition skipComments :: "uint8 list \<Rightarrow> int \<times> uint8 list" where
  "skipComments f = skipComments_loop 0 f"

text \<open>The conversions \<^verbatim>\<open>%d\<close> and \<^verbatim>\<open>%u\<close> of \<^verbatim>\<open>fprintf\<close>.\<close>

fun dec_digits :: "nat \<Rightarrow> uint8 list" where
  "dec_digits n =
     (if n < 10 then [of_nat (48 + n)]
      else dec_digits (n div 10) @ [of_nat (48 + n mod 10)])"

declare dec_digits.simps [simp del]

definition print_d :: "int \<Rightarrow> uint8 list" where
  "print_d v = (if v < 0 then byte CHR ''-'' # dec_digits (nat (- v)) else dec_digits (nat v))"

definition print_u :: "uint8 \<Rightarrow> uint8 list" where
  "print_u v = dec_digits (unat v)"

subsection \<open>Loading and saving PGM files\<close>

text \<open>
  Lines 149 to 163 of \<^verbatim>\<open>ImageLoad\<close>: the chain of checks, which stops at the first that
  fails. The result is the value of \<^verbatim>\<open>success\<close>, the variable \<^verbatim>\<open>img\<close> and the state.
  \<^verbatim>\<open>fopen(filename, "rb")\<close> succeeds when the file exists.
\<close>

definition ImageLoad_chain :: "alloc \<Rightarrow> pstate \<Rightarrow> string \<Rightarrow> (bool \<times> Image \<times> pstate) option" where
  "ImageLoad_chain al s filename =
     (case files s filename of
        None \<Rightarrow> Some (False, NULL, snd (check False ''Open failed'' s))
      | Some f \<Rightarrow>
         (let s = snd (check True ''Open failed'' s);
              (r, f) = fscanf_P_c f;
              (ok, s) = check (r = Some (byte CHR ''5'')) ''Invalid file format'' s
          in if \<not> ok then Some (False, NULL, s) else
         (let (_, f) = skipComments f;
              (r, f) = fscanf_d_sp f
          in (case r of
                None \<Rightarrow> Some (False, NULL, snd (check False ''Invalid width'' s))
              | Some w \<Rightarrow>
         (let (ok, s) = check (w \<ge> 0) ''Invalid width'' s
          in if \<not> ok then Some (False, NULL, s) else
         (let (_, f) = skipComments f;
              (r, f) = fscanf_d_sp f
          in (case r of
                None \<Rightarrow> Some (False, NULL, snd (check False ''Invalid height'' s))
              | Some h \<Rightarrow>
         (let (ok, s) = check (h \<ge> 0) ''Invalid height'' s
          in if \<not> ok then Some (False, NULL, s) else
         (let (_, f) = skipComments f;
              (r, f) = fscanf_d f
          in (case r of
                None \<Rightarrow> Some (False, NULL, snd (check False ''Invalid maxval'' s))
              | Some maxv \<Rightarrow>
         (let (ok, s) = check (0 < maxv \<and> maxv \<le> uint PixMax) ''Invalid maxval'' s
          in if \<not> ok then Some (False, NULL, s) else
         (let (r, f) = fscanf_c f;
              (ok, s) = check (case r of None \<Rightarrow> False | Some c \<Rightarrow> isspace c)
                          ''Whitespace expected'' s
          in if \<not> ok then Some (False, NULL, s) else
             do {
               (img, s) \<leftarrow> ImageCreate al w h (of_int maxv) s;
               if img = NULL then Some (False, img, s)
               else do {
                 I \<leftarrow> deref s img;
                 let got = take (nat (w * h)) f;
                 let s = s\<lparr>heap := (heap s)(img :=
                            Some (I\<lparr>pixel := got @ drop (length got) (pixel I)\<rparr>))\<rparr>;
                 let (ok, s) = check (int (length got) = w * h) ''Reading pixels'' s;
                 Some (ok, img, s)
               }
             }))))))))))))"

definition ImageLoad :: "alloc \<Rightarrow> pstate \<Rightarrow> string \<Rightarrow> (Image \<times> pstate) option" where
  "ImageLoad al s filename = do {
     (success, img, s) \<leftarrow> ImageLoad_chain al s filename;
     if \<not> success then ImageDestroy img s else Some (img, s)
   }"

text \<open>
  What the output stream of \<^verbatim>\<open>ImageSave\<close> does: \<^verbatim>\<open>fopen\<close> fails; \<^verbatim>\<open>fprintf\<close> fails;
  \<^verbatim>\<open>fwrite\<close> stores at most the given number of bytes; or every byte is stored.
  \<^verbatim>\<open>fopen(filename, "wb")\<close> creates the file or empties it.
\<close>

datatype outcome = OpenFails | HeaderFails | ShortWrite nat | Written

definition ImageSave :: "outcome \<Rightarrow> pstate \<Rightarrow> Image \<Rightarrow> string \<Rightarrow> (int \<times> pstate) option" where
  "ImageSave out s img filename = do {
     I \<leftarrow> deref s img;
     let w = width I;
     let h = height I;
     let maxval = (of_int (maxval I) :: uint8);
     if out = OpenFails then Some (0, snd (check False ''Open failed'' s))
     else do {
       let s = snd (check True ''Open failed'' s);
       let s = s\<lparr>files := (files s)(filename := Some [])\<rparr>;
       if out = HeaderFails then Some (0, snd (check False ''Writing header failed'' s))
       else do {
         let header = [byte CHR ''P'', byte CHR ''5'', newline] @ print_d w @ [byte CHR '' '']
                        @ print_d h @ [newline] @ print_u maxval @ [newline];
         let s = s\<lparr>files := (files s)(filename := Some header)\<rparr>;
         let s = snd (check (int (length header) > 0) ''Writing header failed'' s);
         c_assert (0 \<le> w * h \<and> nat (w * h) \<le> length (pixel I));
         let n = (case out of ShortWrite k \<Rightarrow> min k (nat (w * h)) | _ \<Rightarrow> nat (w * h));
         let s = s\<lparr>files := (files s)(filename := Some (header @ take n (pixel I)))\<rparr>;
         let (ok, s) = check (int n = w * h) ''Writing pixels failed'' s;
         Some (if ok then 1 else 0, s)
       }
     }
   }"

subsection \<open>The environment and the specification's formulas\<close>

text \<open>
  What \<^verbatim>\<open>malloc\<close> guarantees: a block it returns is not \<^verbatim>\<open>NULL\<close> and was not allocated.
\<close>

definition alloc_fresh :: "pstate \<Rightarrow> alloc \<Rightarrow> bool" where
  "alloc_fresh s al =
     (case al of Allocated q \<Rightarrow> q \<noteq> NULL \<and> heap s q = None | _ \<Rightarrow> True)"

text \<open>
  The specification's formula for brighten (section 4.3): a sample \<open>v\<close> becomes
  \<open>min(maxval, floor(v * factor))\<close>.
\<close>

definition spec_brighten_sample :: "int \<Rightarrow> real \<Rightarrow> uint8 \<Rightarrow> int" where
  "spec_brighten_sample mv factor v = min mv \<lfloor>real_of_int (uint v) * factor\<rfloor>"

text \<open>
  The specification's formula for blur (section 4.6): the sum of the samples of the image
  in \<open>[x - dx, x + dx] \<times> [y - dy, y + dy]\<close> that lie in the image, divided by their number
  with truncating division.
\<close>

definition spec_blur_sample :: "image \<Rightarrow> int \<Rightarrow> int \<Rightarrow> int \<Rightarrow> int \<Rightarrow> int" where
  "spec_blur_sample I dx dy x y =
     (let nb = [(i, j). j \<leftarrow> [y - dy..y + dy], i \<leftarrow> [x - dx..x + dx],
                        0 \<le> i \<and> i < width I \<and> 0 \<le> j \<and> j < height I]
      in sum_list (map (\<lambda>(i, j). uint (pixel I ! nat (j * width I + i))) nb)
           div int (length nb))"




text \<open>
  The byte stream of the specification for \<open>save\<close> (section 4.2): the header
  \<^verbatim>\<open>P5\n<width> <height>\n<maxval>\n\<close> followed by the raster bytes.
\<close>

definition pgm_bytes :: "image \<Rightarrow> uint8 list" where
  "pgm_bytes I = [byte CHR ''P'', byte CHR ''5'', newline] @ print_d (width I) @ [byte CHR '' '']
     @ print_d (height I) @ [newline] @ print_u (of_int (maxval I)) @ [newline] @ pixel I"

section \<open>Properties\<close>

subsection \<open>Raster indices\<close>

lemma index_bounds:
  fixes x y w h :: int
  assumes "0 \<le> x" "x < w" "0 \<le> y" "y < h"
  shows "0 \<le> y * w + x" and "y * w + x < w * h"
proof -
  from assms show "0 \<le> y * w + x" by simp
  have "y + 1 \<le> h" using assms by simp
  then have "(y + 1) * w \<le> h * w"
    using assms by (intro mult_right_mono) auto
  then show "y * w + x < w * h"
    using assms by (simp add: algebra_simps)
qed

lemma index_inj:
  fixes x y x' y' w :: int
  assumes "0 \<le> x" "x < w" "0 \<le> x'" "x' < w" "y * w + x = y' * w + x'"
  shows "x = x' \<and> y = y'"
proof -
  have a: "(y * w + x) mod w = x" 
    using assms(1,2) by simp
  have b: "(y' * w + x') mod w = x'"
    using assms(3,4) by simp
  from a b assms(5) have x: "x = x'" by simp
  then have "y * w = y' * w" using assms(5) by simp
  then have "y = y'" using assms(1,2) by simp
  with x show ?thesis by simp
qed

lemma for_range_stop: "\<not> i < n \<Longrightarrow> for_range i n body s = Some s"
  by (simp add: for_range.simps)

lemma for_range_step:
  "i < n \<Longrightarrow> for_range i n body s =
     (case body i s of None \<Rightarrow> None | Some s' \<Rightarrow> for_range (i + 1) n body s')"
  by (subst for_range.simps) simp


lemma for_range_rule:
  assumes "P i s"
    and "\<And>k t. i \<le> k \<Longrightarrow> k < n \<Longrightarrow> P k t \<Longrightarrow> \<exists>t'. body k t = Some t' \<and> P (k + 1) t'"
    and "i \<le> n"
  shows "\<exists>t. for_range i n body s = Some t \<and> P n t"
  using assms
proof (induction "nat (n - i)" arbitrary: i s)
  case 0
  then have "i = n" by simp
  with 0 show ?case by (simp add: for_range_stop)
next
  case (Suc m)
  then have lt: "i < n" by linarith
  from Suc.prems(2)[of i s] Suc.prems(1) lt obtain t' where
    t': "body i s = Some t'" "P (i + 1) t'" by auto
  have m: "m = nat (n - (i + 1))" using Suc.hyps(2) by linarith
  have step: "\<And>k t. i + 1 \<le> k \<Longrightarrow> k < n \<Longrightarrow> P k t \<Longrightarrow> \<exists>t'. body k t = Some t' \<and> P (k + 1) t'"
    using Suc.prems(2) by simp
  have "i + 1 \<le> n" using lt by simp
  from Suc.hyps(1)[OF m t'(2) step this]
  obtain t where "for_range (i + 1) n body t' = Some t \<and> P n t"
    by blast
  with t' lt show ?case by (simp add: for_range_step)
qed

lemma for_return_stop: "\<not> i < n \<Longrightarrow> for_return i n body = Some Next"
  by (simp add: for_return.simps)

lemma for_return_step:
  "i < n \<Longrightarrow> for_return i n body =
     (case body i of None \<Rightarrow> None | Some (Return r) \<Rightarrow> Some (Return r)
      | Some Next \<Rightarrow> for_return (i + 1) n body)"
  by (subst for_return.simps) simp

lemma for_return_all_Next:
  assumes "\<And>k. i \<le> k \<Longrightarrow> k < n \<Longrightarrow> body k = Some Next"
  shows "for_return i n body = Some Next"
  using assms
proof (induction "nat (n - i)" arbitrary: i)
  case 0
  then show ?case by (simp add: for_return_stop)
next
  case (Suc m)
  then have lt: "i < n" by linarith
  have m: "m = nat (n - (i + 1))" using Suc.hyps(2) by linarith
  have "\<And>k. i + 1 \<le> k \<Longrightarrow> k < n \<Longrightarrow> body k = Some Next"
    using Suc.prems by simp
  from Suc.hyps(1)[OF m this]
  have "for_return (i + 1) n body = Some Next" .
  with lt Suc.prems[of i] show ?case by (simp add: for_return_step)
qed


lemma ImageGetPixel_eq:
  assumes "img \<noteq> NULL" "heap s img = Some I"
    and "int (length (pixel I)) = width I * height I"
    and "0 \<le> x" "x < width I" "0 \<le> y" "y < height I"
  shows "ImageGetPixel s img x y = Some (pixel I ! nat (y * width I + x))"
proof -
  from index_bounds[OF assms(4-7)]
  have b: "0 \<le> y * width I + x" "y * width I + x < width I * height I" by simp_all
  then have "nat (y * width I + x) < length (pixel I)"
    using assms(3) by linarith
  with b assms show ?thesis
    by (simp add: ImageGetPixel_def ImageValidPos_def G_def deref_def c_assert_def)
qed

lemma ImageSetPixel_eq:
  assumes "img \<noteq> NULL" "heap s img = Some I"
    and "int (length (pixel I)) = width I * height I"
    and "0 \<le> x" "x < width I" "0 \<le> y" "y < height I"
  shows "ImageSetPixel s img x y v =
    Some (s\<lparr>heap := (heap s)(img := Some (I\<lparr>pixel := (pixel I)[nat (y * width I + x) := v]\<rparr>))\<rparr>)"
proof -
  from index_bounds[OF assms(4-7)]
  have b: "0 \<le> y * width I + x" "y * width I + x < width I * height I" by simp_all
  then have "nat (y * width I + x) < length (pixel I)"
    using assms(3) by linarith
  with b assms show ?thesis
    by (simp add: ImageSetPixel_def ImageValidPos_def G_def deref_def c_assert_def)
qed


lemma copy_loops:
  fixes fx fy :: "int \<Rightarrow> int \<Rightarrow> int"
  assumes src: "src \<noteq> NULL" "heap s src = Some S" "int (length (pixel S)) = width S * height S"
    and dst: "dst \<noteq> NULL" "heap s dst = Some D" "int (length (pixel D)) = width D * height D"
    and ne: "src \<noteq> dst"
    and W: "0 \<le> W" "W \<le> width S" and H: "0 \<le> H" "H \<le> height S"
    and valid: "\<And>i j. 0 \<le> i \<Longrightarrow> i < W \<Longrightarrow> 0 \<le> j \<Longrightarrow> j < H \<Longrightarrow>
                 0 \<le> fx i j \<and> fx i j < width D \<and> 0 \<le> fy i j \<and> fy i j < height D"
    and inj: "\<And>i j i' j'. 0 \<le> i \<Longrightarrow> i < W \<Longrightarrow> 0 \<le> j \<Longrightarrow> j < H \<Longrightarrow>
                 0 \<le> i' \<Longrightarrow> i' < W \<Longrightarrow> 0 \<le> j' \<Longrightarrow> j' < H \<Longrightarrow>
                 fx i j = fx i' j' \<Longrightarrow> fy i j = fy i' j' \<Longrightarrow> i = i' \<and> j = j'"
  shows "\<exists>px.
      for_range 0 H (\<lambda>j t.
        for_range 0 W (\<lambda>i t.
          ImageGetPixel t src i j \<bind> (\<lambda>v. ImageSetPixel t dst (fx i j) (fy i j) v)) t) s
        = Some (s\<lparr>heap := (heap s)(dst := Some (D\<lparr>pixel := px\<rparr>))\<rparr>)
      \<and> length px = length (pixel D)
      \<and> (\<forall>i j. 0 \<le> i \<and> i < W \<and> 0 \<le> j \<and> j < H \<longrightarrow>
            px ! nat (fy i j * width D + fx i j) = pixel S ! nat (j * width S + i))
      \<and> (\<forall>k. (\<forall>i j. 0 \<le> i \<and> i < W \<and> 0 \<le> j \<and> j < H \<longrightarrow>
                  k \<noteq> nat (fy i j * width D + fx i j)) \<longrightarrow> px ! k = pixel D ! k)"
proof -
  define kD where "kD i j = nat (fy i j * width D + fx i j)" for i j
  define inv where "inv j i t \<longleftrightarrow> (\<exists>px.
       t = s\<lparr>heap := (heap s)(dst := Some (D\<lparr>pixel := px\<rparr>))\<rparr>
     \<and> length px = length (pixel D)
     \<and> (\<forall>i' j'. 0 \<le> i' \<and> i' < W \<and> 0 \<le> j' \<and> (j' < j \<or> (j' = j \<and> i' < i)) \<longrightarrow>
            px ! kD i' j' = pixel S ! nat (j' * width S + i'))
     \<and> (\<forall>k. (\<forall>i j. 0 \<le> i \<and> i < W \<and> 0 \<le> j \<and> j < H \<longrightarrow> k \<noteq> kD i j) \<longrightarrow>
            px ! k = pixel D ! k))" for j i t
  have kD_bound: "kD i j < length (pixel D)" if "0 \<le> i" "i < W" "0 \<le> j" "j < H" for i j
  proof -
    from valid[OF that] index_bounds[of "fx i j" "width D" "fy i j" "height D"]
    have "0 \<le> fy i j * width D + fx i j" "fy i j * width D + fx i j < width D * height D"
      by simp_all
    then show ?thesis unfolding kD_def using dst(3) by linarith
  qed
  have kD_inj: "i = i' \<and> j = j'"
    if "0 \<le> i" "i < W" "0 \<le> j" "j < H" "0 \<le> i'" "i' < W" "0 \<le> j'" "j' < H"
      "kD i j = kD i' j'" for i j i' j'
  proof -
    from valid[OF that(1-4)] valid[OF that(5-8)]
    have v: "0 \<le> fx i j" "fx i j < width D" "0 \<le> fy i j"
            "0 \<le> fx i' j'" "fx i' j' < width D" "0 \<le> fy i' j'" by simp_all
    then have "0 \<le> fy i j * width D + fx i j" "0 \<le> fy i' j' * width D + fx i' j'"
      by simp_all
    with that(9) have "fy i j * width D + fx i j = fy i' j' * width D + fx i' j'"
      unfolding kD_def by linarith
    from index_inj[OF v(1,2) v(4,5) this]
    show ?thesis using inj[OF that(1-8)] by simp
  qed
  have inner: "\<exists>t'. for_range 0 W (\<lambda>i t.
          ImageGetPixel t src i j \<bind> (\<lambda>v. ImageSetPixel t dst (fx i j) (fy i j) v)) t = Some t'
          \<and> inv (j + 1) 0 t'"
    if j: "0 \<le> j" "j < H" and t: "inv j 0 t" for j t
  proof -
    have "\<exists>t'. for_range 0 W (\<lambda>i t.
          ImageGetPixel t src i j \<bind> (\<lambda>v. ImageSetPixel t dst (fx i j) (fy i j) v)) t = Some t'
          \<and> inv j W t'"
    proof (rule for_range_rule[where P = "inv j"])
      show "inv j 0 t" by (rule t)
      show "0 \<le> W" by (rule W)
    next
      fix i u
      assume i: "0 \<le> i" "i < W" and u: "inv j i u"
      from u obtain px where
        u_eq: "u = s\<lparr>heap := (heap s)(dst := Some (D\<lparr>pixel := px\<rparr>))\<rparr>"
        and len: "length px = length (pixel D)"
        and filled: "\<forall>i' j'. 0 \<le> i' \<and> i' < W \<and> 0 \<le> j' \<and> (j' < j \<or> (j' = j \<and> i' < i)) \<longrightarrow>
            px ! kD i' j' = pixel S ! nat (j' * width S + i')"
        and frame: "\<forall>k. (\<forall>i j. 0 \<le> i \<and> i < W \<and> 0 \<le> j \<and> j < H \<longrightarrow> k \<noteq> kD i j) \<longrightarrow>
            px ! k = pixel D ! k"
        unfolding inv_def by blast
      have hs: "heap u src = Some S" using u_eq ne src(2) by simp
      have hd: "heap u dst = Some (D\<lparr>pixel := px\<rparr>)" using u_eq by simp
      have get: "ImageGetPixel u src i j = Some (pixel S ! nat (j * width S + i))"
        using i j W H by (intro ImageGetPixel_eq[OF src(1) hs src(3)]) auto
      from valid[OF i j]
      have v: "0 \<le> fx i j" "fx i j < width D" "0 \<le> fy i j" "fy i j < height D" by simp_all
      have set: "ImageSetPixel u dst (fx i j) (fy i j) c =
          Some (s\<lparr>heap := (heap s)(dst := Some (D\<lparr>pixel := px[kD i j := c]\<rparr>))\<rparr>)" for c
        using ImageSetPixel_eq[OF dst(1) hd, of "fx i j" "fy i j" c] v len dst(3)
        by (simp add: u_eq kD_def)
      let ?px = "px[kD i j := pixel S ! nat (j * width S + i)]"
      have "inv j (i + 1) (s\<lparr>heap := (heap s)(dst := Some (D\<lparr>pixel := ?px\<rparr>))\<rparr>)"
        unfolding inv_def
      proof (intro exI[of _ ?px] conjI allI impI)
        show "length ?px = length (pixel D)" using len by simp
      next
        fix i' j'
        assume a: "0 \<le> i' \<and> i' < W \<and> 0 \<le> j' \<and> (j' < j \<or> j' = j \<and> i' < i + 1)"
        show "?px ! kD i' j' = pixel S ! nat (j' * width S + i')"
        proof (cases "i' = i \<and> j' = j")
          case True
          then show ?thesis using kD_bound[OF i j] len by simp
        next
          case False
          have j': "j' < H" using a j by auto
          have "kD i' j' \<noteq> kD i j"
            using kD_inj[of i' j' i j] a j' i j False by blast
          moreover have "j' < j \<or> (j' = j \<and> i' < i)" using a False by auto
          ultimately show ?thesis using filled a by simp
        qed
      next
        fix k
        assume a: "\<forall>i j. 0 \<le> i \<and> i < W \<and> 0 \<le> j \<and> j < H \<longrightarrow> k \<noteq> kD i j"
        then have "k \<noteq> kD i j" using i j by blast
        then show "?px ! k = pixel D ! k" using frame a by simp
      qed simp
      then show "\<exists>t'. ImageGetPixel u src i j \<bind> (\<lambda>v. ImageSetPixel u dst (fx i j) (fy i j) v) = Some t'
              \<and> inv j (i + 1) t'"
        by (simp add: get set)
    qed
    then obtain t' where t': "for_range 0 W (\<lambda>i t.
          ImageGetPixel t src i j \<bind> (\<lambda>v. ImageSetPixel t dst (fx i j) (fy i j) v)) t = Some t'"
        "inv j W t'" by blast
    from t'(2) obtain px where
      e: "t' = s\<lparr>heap := (heap s)(dst := Some (D\<lparr>pixel := px\<rparr>))\<rparr>"
      and len: "length px = length (pixel D)"
      and filled: "\<forall>i' j'. 0 \<le> i' \<and> i' < W \<and> 0 \<le> j' \<and> (j' < j \<or> (j' = j \<and> i' < W)) \<longrightarrow>
            px ! kD i' j' = pixel S ! nat (j' * width S + i')"
      and frame: "\<forall>k. (\<forall>i j. 0 \<le> i \<and> i < W \<and> 0 \<le> j \<and> j < H \<longrightarrow> k \<noteq> kD i j) \<longrightarrow>
            px ! k = pixel D ! k"
      unfolding inv_def by blast
    have "\<forall>i' j'. 0 \<le> i' \<and> i' < W \<and> 0 \<le> j' \<and> (j' < j + 1 \<or> (j' = j + 1 \<and> i' < 0)) \<longrightarrow>
            px ! kD i' j' = pixel S ! nat (j' * width S + i')"
    proof (intro allI impI)
      fix i' j'
      assume a: "0 \<le> i' \<and> i' < W \<and> 0 \<le> j' \<and> (j' < j + 1 \<or> (j' = j + 1 \<and> i' < 0))"
      then have "j' < j \<or> (j' = j \<and> i' < W)" by linarith
      with a filled show "px ! kD i' j' = pixel S ! nat (j' * width S + i')" by blast
    qed
    with e len frame have "inv (j + 1) 0 t'"
      unfolding inv_def by blast
    with t'(1) show ?thesis by blast
  qed
  have "(heap s)(dst := Some (D\<lparr>pixel := pixel D\<rparr>)) = heap s"
    using dst(2) by (simp add: fun_upd_idem)
  then have s_eq: "s = s\<lparr>heap := (heap s)(dst := Some (D\<lparr>pixel := pixel D\<rparr>))\<rparr>"
    by simp
  have "\<forall>i' j'. 0 \<le> i' \<and> i' < W \<and> 0 \<le> j' \<and> (j' < 0 \<or> (j' = 0 \<and> i' < 0)) \<longrightarrow>
            pixel D ! kD i' j' = pixel S ! nat (j' * width S + i')"
    by linarith
  with s_eq have start: "inv 0 0 s"
    unfolding inv_def by blast
  have "\<exists>t. for_range 0 H (\<lambda>j t.
        for_range 0 W (\<lambda>i t.
          ImageGetPixel t src i j \<bind> (\<lambda>v. ImageSetPixel t dst (fx i j) (fy i j) v)) t) s = Some t
        \<and> inv H 0 t"
    by (rule for_range_rule[where P = "\<lambda>j. inv j 0", OF start _ H(1)]) (use inner in blast)
  then obtain t px where
      run: "for_range 0 H (\<lambda>j t.
        for_range 0 W (\<lambda>i t.
          ImageGetPixel t src i j \<bind> (\<lambda>v. ImageSetPixel t dst (fx i j) (fy i j) v)) t) s = Some t"
      and e: "t = s\<lparr>heap := (heap s)(dst := Some (D\<lparr>pixel := px\<rparr>))\<rparr>"
      and len: "length px = length (pixel D)"
      and filled: "\<forall>i' j'. 0 \<le> i' \<and> i' < W \<and> 0 \<le> j' \<and> (j' < H \<or> (j' = H \<and> i' < 0)) \<longrightarrow>
            px ! kD i' j' = pixel S ! nat (j' * width S + i')"
      and frame: "\<forall>k. (\<forall>i j. 0 \<le> i \<and> i < W \<and> 0 \<le> j \<and> j < H \<longrightarrow> k \<noteq> kD i j) \<longrightarrow>
            px ! k = pixel D ! k"
    unfolding inv_def by blast
  from filled have "\<forall>i j. 0 \<le> i \<and> i < W \<and> 0 \<le> j \<and> j < H \<longrightarrow>
            px ! kD i j = pixel S ! nat (j * width S + i)"
    by blast
  with run e len frame show ?thesis
    unfolding kD_def by blast
qed

lemma deref_SomeD: "deref s img = Some I \<Longrightarrow> img \<noteq> NULL \<and> heap s img = Some I"
  by (simp add: deref_def split: if_splits)

lemma for_return_first:
  "i < n \<Longrightarrow> body i = Some (Return r) \<Longrightarrow> for_return i n body = Some (Return r)"
  by (simp add: for_return_step)

subsection \<open>Matching and locating a subimage\<close>

text \<open>
  Claim C10. A template \<open>img2\<close> of width 0 or of height 0 matches at every valid position
  of \<open>img1\<close>: \<^verbatim>\<open>ImageMatchSubImage\<close> returns 1, since no pair of pixels is compared.
\<close>

theorem match_empty_template:
  assumes "deref s img1 = Some I1" and "deref s img2 = Some I2"
    and "width I2 = 0 \<or> height I2 = 0"
    and "ImageValidPos s img1 x y = Some True"
  shows "ImageMatchSubImage s img1 x y img2 = Some 1"
proof -
  let ?inner = "\<lambda>j. for_return 0 (width I2) (\<lambda>i. do {
              pixel1 \<leftarrow> ImageGetPixel s img1 (x + i) (y + j);
              pixel2 \<leftarrow> ImageGetPixel s img2 i j;
              if pixel1 \<noteq> pixel2 then Some (Return (0::int)) else Some Next
            })"
  have "for_return 0 (height I2) ?inner = Some Next"
  proof (cases "height I2 = 0")
    case True
    then show ?thesis by (simp add: for_return_stop)
  next
    case False
    with assms(3) have "width I2 = 0" by simp
    then have "?inner j = Some Next" for j by (simp add: for_return_stop)
    then show ?thesis by (rule for_return_all_Next)
  qed
  with assms(1,2,4) show ?thesis
    by (simp add: ImageMatchSubImage_def c_assert_def)
qed

theorem match_empty_template_witness:
  "deref \<lparr>heap = (\<lambda>_. None)(1 := Some \<lparr>width = 2, height = 2, maxval = 255, pixel = [1, 2, 3, 4]\<rparr>,
                              2 := Some \<lparr>width = 0, height = 3, maxval = 255, pixel = []\<rparr>),
          errCause = [], files = (\<lambda>_. None)\<rparr> 2
     = Some \<lparr>width = 0, height = 3, maxval = 255, pixel = []\<rparr>
   \<and> ImageValidPos
     \<lparr>heap = (\<lambda>_. None)(1 := Some \<lparr>width = 2, height = 2, maxval = 255, pixel = [1, 2, 3, 4]\<rparr>,
                          2 := Some \<lparr>width = 0, height = 3, maxval = 255, pixel = []\<rparr>),
      errCause = [], files = (\<lambda>_. None)\<rparr> 1 1 1 = Some True
   \<and> ImageMatchSubImage
     \<lparr>heap = (\<lambda>_. None)(1 := Some \<lparr>width = 2, height = 2, maxval = 255, pixel = [1, 2, 3, 4]\<rparr>,
                          2 := Some \<lparr>width = 0, height = 3, maxval = 255, pixel = []\<rparr>),
      errCause = [], files = (\<lambda>_. None)\<rparr> 1 1 1 2 = Some 1"
proof (intro conjI)
  show "ImageMatchSubImage
     \<lparr>heap = (\<lambda>_. None)(1 := Some \<lparr>width = 2, height = 2, maxval = 255, pixel = [1, 2, 3, 4]\<rparr>,
                          2 := Some \<lparr>width = 0, height = 3, maxval = 255, pixel = []\<rparr>),
      errCause = [], files = (\<lambda>_. None)\<rparr> 1 1 1 2 = Some 1"
    by (rule match_empty_template[where
          ?I1.0 = "\<lparr>width = 2, height = 2, maxval = 255, pixel = [1, 2, 3, 4]\<rparr>"
          and ?I2.0 = "\<lparr>width = 0, height = 3, maxval = 255, pixel = []\<rparr>"])
       (simp_all add: deref_def NULL_def ImageValidPos_def)
qed (simp_all add: deref_def NULL_def ImageValidPos_def)

lemma self_match:
  assumes d: "deref s img = Some I" and wf: "wf_image I"
    and pos: "0 < width I" "0 < height I"
  shows "ImageMatchSubImage s img 0 0 img = Some 1"
proof -
  from d have h: "img \<noteq> NULL" "heap s img = Some I" by (simp_all add: deref_SomeD)
  from wf have len: "int (length (pixel I)) = width I * height I" by (simp add: wf_image_def)
  let ?body = "\<lambda>j i. do {
              pixel1 \<leftarrow> ImageGetPixel s img (0 + i) (0 + j);
              pixel2 \<leftarrow> ImageGetPixel s img i j;
              if pixel1 \<noteq> pixel2 then Some (Return (0::int)) else Some Next
            }"
  have body: "?body j i = Some Next" if "0 \<le> j" "j < height I" "0 \<le> i" "i < width I" for i j
    using ImageGetPixel_eq[OF h len that(3,4,1,2)] by simp
  have inner: "for_return 0 (width I) (?body j) = Some Next" if "0 \<le> j" "j < height I" for j
    by (rule for_return_all_Next) (use body that in blast)
  have "for_return 0 (height I) (\<lambda>j. for_return 0 (width I) (?body j)) = Some Next"
    by (rule for_return_all_Next) (use inner in blast)
  moreover have "ImageValidPos s img 0 0 = Some True"
    using d pos by (simp add: ImageValidPos_def)
  ultimately show ?thesis
    using d by (simp add: ImageMatchSubImage_def c_assert_def)
qed

text \<open>
  Claim C8, as stated for every image, fails on the empty image: position \<open>(0, 0)\<close> is not
  a valid position of it, and \<^verbatim>\<open>assert (ImageValidPos(img1, x, y))\<close> aborts the match;
  the locator, which tries the anchor \<open>(0, 0)\<close>, aborts with it.
\<close>

theorem self_match_empty_image_aborts:
  "ImageMatchSubImage
     \<lparr>heap = (\<lambda>_. None)(1 := Some \<lparr>width = 0, height = 0, maxval = 255, pixel = []\<rparr>),
      errCause = [], files = (\<lambda>_. None)\<rparr> 1 0 0 1 = None
   \<and> ImageLocateSubImage
     \<lparr>heap = (\<lambda>_. None)(1 := Some \<lparr>width = 0, height = 0, maxval = 255, pixel = []\<rparr>),
      errCause = [], files = (\<lambda>_. None)\<rparr> 1 0 0 1 = None"
  by (simp add: ImageMatchSubImage_def ImageLocateSubImage_def deref_def NULL_def
        ImageValidPos_def c_assert_def for_return.simps)

text \<open>
  Claim C8, amended. For every image with at least one pixel, the image matches itself at
  \<open>(0, 0)\<close>, and locating it in itself returns 1 with \<^verbatim>\<open>*px = 0\<close> and \<^verbatim>\<open>*py = 0\<close>.
\<close>

theorem self_match_locate:
  assumes "deref s img = Some I" and "wf_image I"
    and "0 < width I" and "0 < height I"
  shows "ImageMatchSubImage s img 0 0 img = Some 1
       \<and> ImageLocateSubImage s img px py img = Some (1, 0, 0)"
proof -
  have m: "ImageMatchSubImage s img 0 0 img = Some 1"
    by (rule self_match[OF assms])
  let ?row = "\<lambda>y. for_return 0 (width I - width I + 1) (\<lambda>x. do {
              m \<leftarrow> ImageMatchSubImage s img x y img;
              if m \<noteq> 0 then Some (Return (1::int, x, y)) else Some Next
            })"
  have row0: "?row 0 = Some (Return (1, 0, 0))"
    by (rule for_return_first) (simp_all add: m)
  have "for_return 0 (height I - height I + 1) ?row = Some (Return (1, 0, 0))"
    by (rule for_return_first) (use row0 in simp_all)
  with m assms(1) show ?thesis
    by (simp add: ImageLocateSubImage_def)
qed

theorem self_match_locate_witness:
  "wf_image \<lparr>width = 2, height = 1, maxval = 255, pixel = [17, 200]\<rparr>
   \<and> ImageMatchSubImage
     \<lparr>heap = (\<lambda>_. None)(1 := Some \<lparr>width = 2, height = 1, maxval = 255, pixel = [17, 200]\<rparr>),
      errCause = [], files = (\<lambda>_. None)\<rparr> 1 0 0 1 = Some 1
   \<and> ImageLocateSubImage
     \<lparr>heap = (\<lambda>_. None)(1 := Some \<lparr>width = 2, height = 1, maxval = 255, pixel = [17, 200]\<rparr>),
      errCause = [], files = (\<lambda>_. None)\<rparr> 1 7 9 1 = Some (1, 0, 0)"
proof -
  have "wf_image \<lparr>width = 2, height = 1, maxval = 255, pixel = [17, 200]\<rparr>"
    by (simp add: wf_image_def)
  moreover from this have "ImageMatchSubImage
     \<lparr>heap = (\<lambda>_. None)(1 := Some \<lparr>width = 2, height = 1, maxval = 255, pixel = [17, 200]\<rparr>),
      errCause = [], files = (\<lambda>_. None)\<rparr> 1 0 0 1 = Some 1
   \<and> ImageLocateSubImage
     \<lparr>heap = (\<lambda>_. None)(1 := Some \<lparr>width = 2, height = 1, maxval = 255, pixel = [17, 200]\<rparr>),
      errCause = [], files = (\<lambda>_. None)\<rparr> 1 7 9 1 = Some (1, 0, 0)"
    by (intro self_match_locate[where I = "\<lparr>width = 2, height = 1, maxval = 255, pixel = [17, 200]\<rparr>"])
       (simp_all add: deref_def NULL_def)
  ultimately show ?thesis by simp
qed

subsection \<open>Creating an image\<close>

lemma maxval_uint8:
  assumes "0 < m" "m \<le> 255"
  shows "uint (of_int m :: uint8) = m"
    and "0 < (of_int m :: uint8)" and "(of_int m :: uint8) \<le> PixMax"
proof -
  show u: "uint (of_int m :: uint8) = m"
    using assms by (simp add: uint_word_of_int)
  from u assms show "0 < (of_int m :: uint8)"
    by (simp add: word_less_def)
  from u assms show "(of_int m :: uint8) \<le> PixMax"
    by (simp add: word_le_def PixMax_def)
qed

lemma ImageCreate_Allocated:
  assumes "0 \<le> w" "0 \<le> h" "0 < m" "m \<le> 255"
  shows "ImageCreate (Allocated q) w h (of_int m) s =
     Some (q, s\<lparr>heap := (heap s)(q := Some \<lparr>width = w, height = h, maxval = m,
                                            pixel = replicate (nat (w * h)) 0\<rparr>)\<rparr>)"
  using assms maxval_uint8[OF assms(3,4)]
  by (simp add: ImageCreate_def c_assert_def)


subsection \<open>Rotation\<close>

text \<open>
  Claim C4. For an image \<open>I\<close> of width \<open>w\<close> and height \<open>h\<close>, when both allocations succeed
  and give the block \<open>q\<close>, not allocated before, \<^verbatim>\<open>ImageRotate\<close> returns \<open>q\<close>, a new image of
  width \<open>h\<close> and height \<open>w\<close> with the maxval of \<open>I\<close>; the sample of \<open>I\<close> at every valid
  position \<open>(x, y)\<close> is the sample of the result at \<open>(h - 1 - y, x)\<close>; \<open>I\<close> is as before the
  call, and so is every other allocated image.
\<close>

theorem rotate_mapping:
  assumes d: "deref s img = Some I" and wf: "wf_image I"
    and q: "q \<noteq> NULL" "heap s q = None"
  shows "\<exists>s' R. ImageRotate (Allocated q) s img = Some (q, s')
       \<and> heap s' q = Some R \<and> wf_image R
       \<and> width R = height I \<and> height R = width I \<and> maxval R = maxval I
       \<and> (\<forall>x y. 0 \<le> x \<and> x < width I \<and> 0 \<le> y \<and> y < height I \<longrightarrow>
             ImageGetPixel s img x y = Some (pixel I ! nat (y * width I + x))
           \<and> ImageGetPixel s' q (height I - 1 - y) x = Some (pixel I ! nat (y * width I + x)))
       \<and> heap s' img = Some I
       \<and> (\<forall>p. p \<noteq> q \<longrightarrow> heap s' p = heap s p)"
proof -
  from d have h: "img \<noteq> NULL" "heap s img = Some I" by (simp_all add: deref_SomeD)
  from wf have dims: "0 \<le> width I" "0 \<le> height I" "0 < maxval I" "maxval I \<le> 255"
    and len: "int (length (pixel I)) = width I * height I"
    by (simp_all add: wf_image_def)
  from h q have ne: "img \<noteq> q" by auto
  define D where "D = \<lparr>width = height I, height = width I, maxval = maxval I,
                        pixel = replicate (nat (height I * width I)) (0 :: uint8)\<rparr>"
  define s1 where "s1 = s\<lparr>heap := (heap s)(q := Some D)\<rparr>"
  have create: "ImageCreate (Allocated q) (height I) (width I) (of_int (maxval I)) s = Some (q, s1)"
    unfolding s1_def D_def by (rule ImageCreate_Allocated[OF dims(2,1,3,4)])
  have h1: "heap s1 img = Some I" "heap s1 q = Some D"
    using h ne by (simp_all add: s1_def)
  have lenD: "int (length (pixel D)) = width D * height D"
    using dims by (simp add: D_def)
  from copy_loops[OF h(1) h1(1) len q(1) h1(2) lenD ne, of "width I" "height I"
       "\<lambda>i j. height I - j - 1" "\<lambda>i j. i"] dims
  obtain px where
    run: "for_range 0 (height I) (\<lambda>j t.
        for_range 0 (width I) (\<lambda>i t.
          ImageGetPixel t img i j \<bind> (\<lambda>v. ImageSetPixel t q (height I - j - 1) i v)) t) s1
        = Some (s1\<lparr>heap := (heap s1)(q := Some (D\<lparr>pixel := px\<rparr>))\<rparr>)"
    and lpx: "length px = length (pixel D)"
    and filled: "\<forall>i j. 0 \<le> i \<and> i < width I \<and> 0 \<le> j \<and> j < height I \<longrightarrow>
            px ! nat (i * width D + (height I - j - 1)) = pixel I ! nat (j * width I + i)"
    by (auto simp: D_def)
  define s2 where "s2 = s1\<lparr>heap := (heap s1)(q := Some (D\<lparr>pixel := px\<rparr>))\<rparr>"
  have res: "ImageRotate (Allocated q) s img = Some (q, s2)"
    using d create run q(1) by (simp add: ImageRotate_def s2_def)
  have h2: "heap s2 q = Some (D\<lparr>pixel := px\<rparr>)" "heap s2 img = Some I"
    using h1 ne by (simp_all add: s2_def)
  have frame: "\<forall>p. p \<noteq> q \<longrightarrow> heap s2 p = heap s p"
    by (simp add: s2_def s1_def)
  have wfR: "wf_image (D\<lparr>pixel := px\<rparr>)"
    using dims lpx lenD by (simp add: wf_image_def D_def)
  have px: "ImageGetPixel s img x y = Some (pixel I ! nat (y * width I + x))
      \<and> ImageGetPixel s2 q (height I - 1 - y) x = Some (pixel I ! nat (y * width I + x))"
    if xy: "0 \<le> x \<and> x < width I \<and> 0 \<le> y \<and> y < height I" for x y
  proof -
    have a: "ImageGetPixel s img x y = Some (pixel I ! nat (y * width I + x))"
      using xy by (intro ImageGetPixel_eq[OF h len]) simp_all
    have "int (length (pixel (D\<lparr>pixel := px\<rparr>))) = width (D\<lparr>pixel := px\<rparr>) * height (D\<lparr>pixel := px\<rparr>)"
      using lpx lenD by simp
    from ImageGetPixel_eq[OF q(1) h2(1) this, of "height I - 1 - y" x] xy
    have "ImageGetPixel s2 q (height I - 1 - y) x = Some (px ! nat (x * width D + (height I - 1 - y)))"
      by (simp add: D_def)
    then have "ImageGetPixel s2 q (height I - 1 - y) x = Some (px ! nat (x * width D + (height I - y - 1)))"
      by (simp add: algebra_simps)
    with a filled xy show ?thesis by simp
  qed
  show ?thesis
    using res h2 wfR frame px by (intro exI[of _ s2] exI[of _ "D\<lparr>pixel := px\<rparr>"]) (simp add: D_def)
qed


theorem rotate_mapping_witness:
  "wf_image \<lparr>width = 2, height = 1, maxval = 255, pixel = [17, 200]\<rparr>
   \<and> (\<exists>s' R. ImageRotate (Allocated 2)
          \<lparr>heap = (\<lambda>_. None)(1 := Some \<lparr>width = 2, height = 1, maxval = 255, pixel = [17, 200]\<rparr>),
           errCause = [], files = (\<lambda>_. None)\<rparr> 1 = Some (2, s')
        \<and> heap s' 2 = Some R \<and> width R = 1 \<and> height R = 2 \<and> maxval R = 255
        \<and> ImageGetPixel s' 2 0 1 = Some 200
        \<and> heap s' 1 = Some \<lparr>width = 2, height = 1, maxval = 255, pixel = [17, 200]\<rparr>)"
proof -
  let ?I = "\<lparr>width = 2, height = 1, maxval = 255, pixel = [17, 200 :: uint8]\<rparr>"
  let ?s = "\<lparr>heap = (\<lambda>_. None)(1 := Some ?I), errCause = [], files = (\<lambda>_. None)\<rparr>"
  have wf: "wf_image ?I" by (simp add: wf_image_def)
  have d: "deref ?s 1 = Some ?I" by (simp add: deref_def NULL_def)
  have q: "(2 :: Image) \<noteq> NULL" "heap ?s 2 = None" by (simp_all add: NULL_def)
  from rotate_mapping[OF d wf q] obtain s' R where
    r: "ImageRotate (Allocated 2) ?s 1 = Some (2, s')" "heap s' 2 = Some R"
       "width R = height ?I" "height R = width ?I" "maxval R = maxval ?I" "heap s' 1 = Some ?I"
    and m: "\<forall>x y. 0 \<le> x \<and> x < width ?I \<and> 0 \<le> y \<and> y < height ?I \<longrightarrow>
             ImageGetPixel ?s 1 x y = Some (pixel ?I ! nat (y * width ?I + x))
           \<and> ImageGetPixel s' 2 (height ?I - 1 - y) x = Some (pixel ?I ! nat (y * width ?I + x))"
    by blast
  from m[rule_format, of 1 0] have "ImageGetPixel s' 2 0 1 = Some 200" by simp
  with r wf show ?thesis by auto
qed


text \<open>
  Claim C3. On the image with rows \<open>[10, 20]\<close> and \<open>[30, 40]\<close> the source returns the
  image with rows \<open>[30, 10]\<close> and \<open>[40, 20]\<close>, a quarter turn clockwise. The claim expects
  the rows \<open>[20, 40]\<close> and \<open>[10, 30]\<close>, the quarter turn anti-clockwise that the comments of
  \<^verbatim>\<open>ImageRotate\<close> announce.
\<close>

theorem rotate_2x2:
  "ImageRotate (Allocated 2)
     \<lparr>heap = (\<lambda>_. None)(1 := Some \<lparr>width = 2, height = 2, maxval = 255, pixel = [10, 20, 30, 40]\<rparr>),
      errCause = [], files = (\<lambda>_. None)\<rparr> 1
   = Some (2,
     \<lparr>heap = (\<lambda>_. None)(1 := Some \<lparr>width = 2, height = 2, maxval = 255, pixel = [10, 20, 30, 40]\<rparr>,
                          2 := Some \<lparr>width = 2, height = 2, maxval = 255, pixel = [30, 10, 40, 20]\<rparr>),
      errCause = [], files = (\<lambda>_. None)\<rparr>)"
proof -
  have r: "replicate (4::nat) (0::uint8) = [0, 0, 0, 0]"
    by (simp add: eval_nat_numeral)
  show ?thesis
    by (simp add: ImageRotate_def deref_def NULL_def ImageCreate_def c_assert_def PixMax_def
        for_range.simps ImageGetPixel_def ImageSetPixel_def ImageValidPos_def G_def Let_def r)
qed

subsection \<open>Pasting\<close>

lemma ImageSetPixel_same:
  assumes "img \<noteq> NULL" "heap s img = Some I"
    and "int (length (pixel I)) = width I * height I"
    and "0 \<le> x" "x < width I" "0 \<le> y" "y < height I"
  shows "ImageSetPixel s img x y (pixel I ! nat (y * width I + x)) = Some s"
proof -
  have "(heap s)(img := Some (I\<lparr>pixel := (pixel I)[nat (y * width I + x) := pixel I ! nat (y * width I + x)]\<rparr>))
      = heap s"
    using assms(2) by (simp add: fun_upd_idem)
  then show ?thesis
    using ImageSetPixel_eq[OF assms, of "pixel I ! nat (y * width I + x)"] by simp
qed

lemma paste_self:
  assumes h: "img \<noteq> NULL" "heap s img = Some I"
    and len: "int (length (pixel I)) = width I * height I"
  shows "for_range 0 (height I) (\<lambda>j s.
       for_range 0 (width I) (\<lambda>i s. do {
         pixel \<leftarrow> ImageGetPixel s img i j;
         ImageSetPixel s img (0 + i) (0 + j) pixel
       }) s) s = Some s"
proof -
  have inner: "for_range 0 (width I) (\<lambda>i s. do {
         pixel \<leftarrow> ImageGetPixel s img i j;
         ImageSetPixel s img (0 + i) (0 + j) pixel
       }) s = Some s" if j: "0 \<le> j" "j < height I" for j
  proof (cases "0 \<le> width I")
    case True
    have "\<exists>t. for_range 0 (width I) (\<lambda>i s. do {
         pixel \<leftarrow> ImageGetPixel s img i j;
         ImageSetPixel s img (0 + i) (0 + j) pixel
       }) s = Some t \<and> t = s"
    proof (rule for_range_rule[where P = "\<lambda>k t. t = s"])
      fix k t
      assume k: "0 \<le> k" "k < width I" and t: "t = s"
      show "\<exists>t'. (do {
         pixel \<leftarrow> ImageGetPixel t img k j;
         ImageSetPixel t img (0 + k) (0 + j) pixel
       }) = Some t' \<and> t' = s"
        using ImageGetPixel_eq[OF h len k j] ImageSetPixel_same[OF h len k j] t by simp
    qed (simp_all add: True)
    then show ?thesis by simp
  next
    case False
    then show ?thesis by (simp add: for_range_stop)
  qed
  show ?thesis
  proof (cases "0 \<le> height I")
    case True
    have "\<exists>t. for_range 0 (height I) (\<lambda>j s.
       for_range 0 (width I) (\<lambda>i s. do {
         pixel \<leftarrow> ImageGetPixel s img i j;
         ImageSetPixel s img (0 + i) (0 + j) pixel
       }) s) s = Some t \<and> t = s"
      by (rule for_range_rule[where P = "\<lambda>k t. t = s"]) (use inner True in simp_all)
    then show ?thesis by simp
  next
    case False
    then show ?thesis by (simp add: for_range_stop)
  qed
qed

text \<open>
  Claim C9. With \<^verbatim>\<open>ImageValidRect(img1, x, y, img2->width, img2->height)\<close>, pasting \<open>img2\<close>
  into \<open>img1\<close> at \<open>(x, y)\<close> returns, leaves the width, height and maxval of \<open>img1\<close> as they
  were, and leaves every sample of \<open>img1\<close> outside the rectangle
  \<open>[x, x + width img2) \<times> [y, y + height img2)\<close> as it was. The two pointers may be equal.
\<close>

theorem paste_frame:
  assumes d1: "deref s img1 = Some I1" and wf1: "wf_image I1"
    and d2: "deref s img2 = Some I2" and wf2: "wf_image I2"
    and rect: "ImageValidRect s img1 x y (width I2) (height I2) = Some True"
  shows "\<exists>s' J. ImagePaste s img1 x y img2 = Some s' \<and> heap s' img1 = Some J
     \<and> width J = width I1 \<and> height J = height I1 \<and> maxval J = maxval I1
     \<and> (\<forall>px py. 0 \<le> px \<and> px < width I1 \<and> 0 \<le> py \<and> py < height I1
            \<and> \<not> (x \<le> px \<and> px < x + width I2 \<and> y \<le> py \<and> py < y + height I2) \<longrightarrow>
          ImageGetPixel s' img1 px py = ImageGetPixel s img1 px py)"
proof -
  from d1 have h1: "img1 \<noteq> NULL" "heap s img1 = Some I1" by (simp_all add: deref_SomeD)
  from d2 have h2: "img2 \<noteq> NULL" "heap s img2 = Some I2" by (simp_all add: deref_SomeD)
  from wf1 have len1: "int (length (pixel I1)) = width I1 * height I1"
    by (simp add: wf_image_def)
  from wf2 have len2: "int (length (pixel I2)) = width I2 * height I2"
    and dims2: "0 \<le> width I2" "0 \<le> height I2"
    by (simp_all add: wf_image_def)
  from rect d1 have r: "0 \<le> x" "x + width I2 \<le> width I1" "0 \<le> y" "y + height I2 \<le> height I1"
    by (simp_all add: ImageValidRect_def)
  show ?thesis
  proof (cases "img1 = img2")
    case True
    with h1 h2 have I: "I2 = I1" by simp
    with r have xy: "x = 0" "y = 0" by simp_all
    have "ImagePaste s img1 x y img2 = Some s"
      using d1 d2 rect paste_self[OF h1 len1] True I xy
      by (simp add: ImagePaste_def c_assert_def)
    with h1 show ?thesis by auto
  next
    case False
    then have ne: "img2 \<noteq> img1" by simp
    from copy_loops[OF h2 len2 h1 len1 ne, of "width I2" "height I2" "\<lambda>i j. x + i" "\<lambda>i j. y + j"]
      dims2 r
    obtain px where
      run: "for_range 0 (height I2) (\<lambda>j t.
        for_range 0 (width I2) (\<lambda>i t.
          ImageGetPixel t img2 i j \<bind> (\<lambda>v. ImageSetPixel t img1 (x + i) (y + j) v)) t) s
        = Some (s\<lparr>heap := (heap s)(img1 := Some (I1\<lparr>pixel := px\<rparr>))\<rparr>)"
      and lpx: "length px = length (pixel I1)"
      and frame: "\<forall>k. (\<forall>i j. 0 \<le> i \<and> i < width I2 \<and> 0 \<le> j \<and> j < height I2 \<longrightarrow>
                  k \<noteq> nat ((y + j) * width I1 + (x + i))) \<longrightarrow> px ! k = pixel I1 ! k"
      by auto
    define s' where "s' = s\<lparr>heap := (heap s)(img1 := Some (I1\<lparr>pixel := px\<rparr>))\<rparr>"
    have res: "ImagePaste s img1 x y img2 = Some s'"
      using d1 d2 rect run by (simp add: ImagePaste_def c_assert_def s'_def)
    have h': "heap s' img1 = Some (I1\<lparr>pixel := px\<rparr>)" by (simp add: s'_def)
    have len': "int (length (pixel (I1\<lparr>pixel := px\<rparr>)))
        = width (I1\<lparr>pixel := px\<rparr>) * height (I1\<lparr>pixel := px\<rparr>)"
      using lpx len1 by simp
    have out: "ImageGetPixel s' img1 a b = ImageGetPixel s img1 a b"
      if ab: "0 \<le> a \<and> a < width I1 \<and> 0 \<le> b \<and> b < height I1
            \<and> \<not> (x \<le> a \<and> a < x + width I2 \<and> y \<le> b \<and> b < y + height I2)" for a b
    proof -
      have "nat (b * width I1 + a) \<noteq> nat ((y + j) * width I1 + (x + i))"
        if ij: "0 \<le> i \<and> i < width I2 \<and> 0 \<le> j \<and> j < height I2" for i j
      proof
        assume e: "nat (b * width I1 + a) = nat ((y + j) * width I1 + (x + i))"
        have "0 \<le> b * width I1 + a" "0 \<le> (y + j) * width I1 + (x + i)"
          using ab ij r by simp_all
        with e have "b * width I1 + a = (y + j) * width I1 + (x + i)" by linarith
        from index_inj[OF _ _ _ _ this] ab ij r have "a = x + i \<and> b = y + j" by simp
        with ab ij show False by simp
      qed
      then have "px ! nat (b * width I1 + a) = pixel I1 ! nat (b * width I1 + a)"
        using frame by blast
      moreover have "ImageGetPixel s' img1 a b = Some (px ! nat (b * width I1 + a))"
        using ImageGetPixel_eq[OF h1(1) h' len', of a b] ab by simp
      moreover have "ImageGetPixel s img1 a b = Some (pixel I1 ! nat (b * width I1 + a))"
        using ImageGetPixel_eq[OF h1 len1, of a b] ab by simp
      ultimately show ?thesis by simp
    qed
    show ?thesis
      using res h' out by (intro exI[of _ s'] exI[of _ "I1\<lparr>pixel := px\<rparr>"]) simp
  qed
qed

theorem paste_frame_witness:
  "ImageValidRect
      \<lparr>heap = (\<lambda>_. None)(1 := Some \<lparr>width = 2, height = 2, maxval = 255, pixel = [1, 2, 3, 4]\<rparr>,
                           2 := Some \<lparr>width = 1, height = 1, maxval = 255, pixel = [9]\<rparr>),
       errCause = [], files = (\<lambda>_. None)\<rparr> 1 1 0 1 1 = Some True
   \<and> (\<exists>s' J. ImagePaste
      \<lparr>heap = (\<lambda>_. None)(1 := Some \<lparr>width = 2, height = 2, maxval = 255, pixel = [1, 2, 3, 4]\<rparr>,
                           2 := Some \<lparr>width = 1, height = 1, maxval = 255, pixel = [9]\<rparr>),
       errCause = [], files = (\<lambda>_. None)\<rparr> 1 1 0 2 = Some s'
     \<and> heap s' 1 = Some J \<and> width J = 2 \<and> height J = 2 \<and> maxval J = 255
     \<and> ImageGetPixel s' 1 0 0 = Some 1 \<and> ImageGetPixel s' 1 1 1 = Some 4)"
proof -
  let ?I1 = "\<lparr>width = 2, height = 2, maxval = 255, pixel = [1, 2, 3, 4 :: uint8]\<rparr>"
  let ?I2 = "\<lparr>width = 1, height = 1, maxval = 255, pixel = [9 :: uint8]\<rparr>"
  let ?s = "\<lparr>heap = (\<lambda>_. None)(1 := Some ?I1, 2 := Some ?I2), errCause = [], files = (\<lambda>_. None)\<rparr>"
  have wf: "wf_image ?I1" "wf_image ?I2" by (simp_all add: wf_image_def)
  have d: "deref ?s 1 = Some ?I1" "deref ?s 2 = Some ?I2" by (simp_all add: deref_def NULL_def)
  have rect: "ImageValidRect ?s 1 1 0 (width ?I2) (height ?I2) = Some True"
    by (simp add: ImageValidRect_def deref_def NULL_def)
  from paste_frame[OF d(1) wf(1) d(2) wf(2) rect] obtain s' J where
    r: "ImagePaste ?s 1 1 0 2 = Some s'" "heap s' 1 = Some J"
       "width J = width ?I1" "height J = height ?I1" "maxval J = maxval ?I1"
    and m: "\<forall>px py. 0 \<le> px \<and> px < width ?I1 \<and> 0 \<le> py \<and> py < height ?I1
            \<and> \<not> (1 \<le> px \<and> px < 1 + width ?I2 \<and> 0 \<le> py \<and> py < 0 + height ?I2) \<longrightarrow>
          ImageGetPixel s' 1 px py = ImageGetPixel ?s 1 px py"
    by blast
  have g: "ImageGetPixel ?s 1 0 0 = Some 1" "ImageGetPixel ?s 1 1 1 = Some 4"
    by (simp_all add: ImageGetPixel_def ImageValidPos_def G_def deref_def NULL_def c_assert_def)
  from m[rule_format, of 0 0] m[rule_format, of 1 1] g
  have "ImageGetPixel s' 1 0 0 = Some 1" "ImageGetPixel s' 1 1 1 = Some 4" by simp_all
  with r rect show ?thesis by auto
qed

subsection \<open>Blur\<close>














text \<open>
  Claim C2. On the image of width 2 and height 1 with samples \<open>[0, 100]\<close>, and
  \<open>dx = 1\<close>, \<open>dy = 0\<close>, the source leaves the samples \<open>[0, 100]\<close> (and a temporary copy that
  it never frees); the mean over the neighbourhood that the claim states is 50 at both
  positions.
\<close>

theorem blur_2x1:
  "ImageBlur (Allocated 2)
     \<lparr>heap = (\<lambda>_. None)(1 := Some \<lparr>width = 2, height = 1, maxval = 255, pixel = [0, 100]\<rparr>),
      errCause = [], files = (\<lambda>_. None)\<rparr> 1 1 0
   = Some
     \<lparr>heap = (\<lambda>_. None)(1 := Some \<lparr>width = 2, height = 1, maxval = 255, pixel = [0, 100]\<rparr>,
                          2 := Some \<lparr>width = 2, height = 1, maxval = 255, pixel = [0, 100]\<rparr>),
      errCause = [], files = (\<lambda>_. None)\<rparr>
   \<and> spec_blur_sample \<lparr>width = 2, height = 1, maxval = 255, pixel = [0, 100]\<rparr> 1 0 0 0 = 50
   \<and> spec_blur_sample \<lparr>width = 2, height = 1, maxval = 255, pixel = [0, 100]\<rparr> 1 0 1 0 = 50"
proof -
  have r: "replicate (2::nat) (0::uint8) = [0, 0]"
    by (simp add: eval_nat_numeral)
  have "ImageBlur (Allocated 2)
     \<lparr>heap = (\<lambda>_. None)(1 := Some \<lparr>width = 2, height = 1, maxval = 255, pixel = [0, 100]\<rparr>),
      errCause = [], files = (\<lambda>_. None)\<rparr> 1 1 0
   = Some
     \<lparr>heap = (\<lambda>_. None)(1 := Some \<lparr>width = 2, height = 1, maxval = 255, pixel = [0, 100]\<rparr>,
                          2 := Some \<lparr>width = 2, height = 1, maxval = 255, pixel = [0, 100]\<rparr>),
      errCause = [], files = (\<lambda>_. None)\<rparr>"
    by (simp add: ImageBlur_def deref_def NULL_def ImageCreate_def c_assert_def PixMax_def
        for_range.simps for_upto.simps c_int_def ImageGetPixel_def ImageSetPixel_def
        ImageValidPos_def G_def Let_def r)
  moreover have "spec_blur_sample \<lparr>width = 2, height = 1, maxval = 255, pixel = [0, 100]\<rparr> 1 0 0 0 = 50"
    by (simp add: spec_blur_sample_def upto.simps Let_def)
  moreover have "spec_blur_sample \<lparr>width = 2, height = 1, maxval = 255, pixel = [0, 100]\<rparr> 1 0 1 0 = 50"
    by (simp add: spec_blur_sample_def upto.simps Let_def)
  ultimately show ?thesis by simp
qed

subsection \<open>Brighten\<close>

text \<open>
  Claim C1. On a sample 200 with maxval 255 and factor 2 the source stores 144: the product
  400 is converted to \<^verbatim>\<open>uint8\<close>, that is reduced modulo 256, before it is compared with
  maxval. The claim's \<open>min(maxval, floor(s * factor))\<close> is 255.
\<close>

theorem brighten_wraps:
  "ImageBrighten
     \<lparr>heap = (\<lambda>_. None)(1 := Some \<lparr>width = 1, height = 1, maxval = 255, pixel = [200]\<rparr>),
      errCause = [], files = (\<lambda>_. None)\<rparr> 1 2
   = Some
     \<lparr>heap = (\<lambda>_. None)(1 := Some \<lparr>width = 1, height = 1, maxval = 255, pixel = [144]\<rparr>),
      errCause = [], files = (\<lambda>_. None)\<rparr>
   \<and> spec_brighten_sample 255 2 200 = 255"
proof -
  have w: "(400 :: uint8) = 144" by simp
  have "ImageBrighten
     \<lparr>heap = (\<lambda>_. None)(1 := Some \<lparr>width = 1, height = 1, maxval = 255, pixel = [200]\<rparr>),
      errCause = [], files = (\<lambda>_. None)\<rparr> 1 2
   = Some
     \<lparr>heap = (\<lambda>_. None)(1 := Some \<lparr>width = 1, height = 1, maxval = 255, pixel = [144]\<rparr>),
      errCause = [], files = (\<lambda>_. None)\<rparr>"
    by (simp add: ImageBrighten_def deref_def NULL_def c_assert_def int_of_double_def
        for_range.simps ImageGetPixel_def ImageSetPixel_def ImageValidPos_def G_def Let_def w)
  moreover have "spec_brighten_sample 255 2 200 = 255"
    by (simp add: spec_brighten_sample_def)
  ultimately show ?thesis by simp
qed

subsection \<open>The PGM codec\<close>

lemma digit_byte:
  assumes "d < 10"
  shows "isdigit (48 + of_nat d)" and "uint (48 + of_nat d :: uint8) - 48 = int d"
proof -
  have e: "(48 + of_nat d :: uint8) = of_nat (48 + d)" by simp
  have "unat (of_nat (48 + d) :: uint8) = (48 + d) mod 2 ^ LENGTH(8)"
    by (simp only: unat_of_nat)
  then have u: "unat (48 + of_nat d :: uint8) = 48 + d"
    using assms by (simp only: e) simp
  have "unat (48 :: uint8) = 48" "unat (57 :: uint8) = 57" by simp_all
  with u assms show "isdigit (48 + of_nat d)"
    by (simp add: isdigit_def word_le_nat_alt)
  from u have "uint (48 + of_nat d :: uint8) = int (48 + d)"
    by (metis uint_nat)
  then show "uint (48 + of_nat d :: uint8) - 48 = int d" by simp
qed

lemma isdigit_not_space: "isdigit c \<Longrightarrow> \<not> isspace c"
  by (auto simp: isdigit_def isspace_def)

lemma isdigit_not_sign:
  "isdigit c \<Longrightarrow> c \<noteq> byte CHR ''-'' \<and> c \<noteq> byte CHR ''+'' \<and> c \<noteq> byte CHR ''#''"
  by (auto simp: isdigit_def byte_def)

lemma dec_digits_isdigit: "list_all isdigit (dec_digits n)"
proof (induction n rule: dec_digits.induct)
  case (1 n)
  show ?case
  proof (cases "n < 10")
    case True
    then show ?thesis by (subst dec_digits.simps) (simp add: digit_byte)
  next
    case False
    have "n mod 10 < 10" by simp
    with False 1 show ?thesis
      by (subst dec_digits.simps) (simp add: digit_byte)
  qed
qed

lemma dec_digits_nonempty: "dec_digits n \<noteq> []"
  by (subst dec_digits.simps) simp

lemma digits_value_snoc:
  "digits_value (ds @ [d]) = 10 * digits_value ds + (uint d - 0x30)"
  by (simp add: digits_value_def)

lemma digits_value_dec: "digits_value (dec_digits n) = int n"
proof (induction n rule: dec_digits.induct)
  case (1 n)
  show ?case
  proof (cases "n < 10")
    case True
    then show ?thesis
      by (subst dec_digits.simps) (simp add: digits_value_def digit_byte)
  next
    case False
    have m: "n mod 10 < 10" by simp
    from False 1 have "digits_value (dec_digits (n div 10)) = int (n div 10)" by simp
    moreover have "10 * int (n div 10) + int (n mod 10) = int n"
      by presburger
    ultimately show ?thesis
      using False by (subst dec_digits.simps) (simp add: digits_value_snoc digit_byte(2)[OF m])
  qed
qed

lemma store_d_id: "- (2 ^ 31) \<le> v \<Longrightarrow> v < 2 ^ 31 \<Longrightarrow> store_d v = v"
proof -
  assume v: "- (2 ^ 31) \<le> v" "v < 2 ^ 31"
  then have "max (- (2 ^ 63)) (min (2 ^ 63 - 1) v) = v" by simp
  moreover have "sint (word_of_int v :: 32 word) = v"
    using v by (simp add: sint_sbintrunc' signed_take_bit_int_eq_self)
  ultimately show ?thesis by (simp add: store_d_def)
qed

lemma scan_d_dec:
  assumes "rest = [] \<or> \<not> isdigit (hd rest)"
  shows "scan_d (dec_digits n @ rest) = (Some (store_d (int n)), rest)"
proof -
  obtain a ds where ad: "dec_digits n = a # ds"
    using dec_digits_nonempty[of n] by (cases "dec_digits n") auto
  have all: "\<And>x. x \<in> set (dec_digits n) \<Longrightarrow> isdigit x"
    using dec_digits_isdigit[of n] by (simp add: list_all_iff)
  then have a: "isdigit a" using ad by simp
  have r: "takeWhile isdigit rest = []" "dropWhile isdigit rest = rest"
    using assms by (cases rest; simp)+
  have tw: "takeWhile isdigit (dec_digits n @ rest) = dec_digits n"
    using takeWhile_append2[of "dec_digits n" isdigit rest] all r by simp
  have dw: "dropWhile isdigit (dec_digits n @ rest) = rest"
    using dropWhile_append2[of "dec_digits n" isdigit rest] all r by simp
  have sp: "dropWhile isspace (dec_digits n @ rest) = dec_digits n @ rest"
    using isdigit_not_space[OF a] ad by simp
  have "scan_d (dec_digits n @ rest) =
    (let f0 = dec_digits n @ rest in
      case f0 of
        [] \<Rightarrow> (None, [])
      | a # f1 \<Rightarrow>
          let f2 = (if a = byte CHR ''-'' \<or> a = byte CHR ''+'' then f1 else f0);
              ds = takeWhile isdigit f2
          in if ds = [] then (None, f2)
             else (Some (store_d (if a = byte CHR ''-'' then - digits_value ds
                                  else digits_value ds)),
                   dropWhile isdigit f2))"
    unfolding scan_d_def sp ..
  also have "\<dots> = (Some (store_d (digits_value (dec_digits n))), rest)"
    using isdigit_not_sign[OF a] tw dw dec_digits_nonempty[of n] ad
    by (simp add: Let_def del: takeWhile.simps dropWhile.simps)
  finally show ?thesis by (simp add: digits_value_dec)
qed

lemma isspace_not_digit: "isspace c \<Longrightarrow> \<not> isdigit c"
  using isdigit_not_space by blast

lemma hd_dec_digits: "isdigit (hd (dec_digits n @ r))"
proof -
  obtain a ds where ad: "dec_digits n = a # ds"
    using dec_digits_nonempty[of n] by (cases "dec_digits n") auto
  with dec_digits_isdigit[of n] show ?thesis by simp
qed

lemma skip_ws:
  assumes "list_all isspace ws" and "r = [] \<or> \<not> isspace (hd r)"
  shows "dropWhile isspace (ws @ r) = r"
proof -
  have "dropWhile isspace (ws @ r) = dropWhile isspace r"
    by (rule dropWhile_append2) (use assms(1) in \<open>simp add: list_all_iff\<close>)
  also have "\<dots> = r" using assms(2) by (cases r) auto
  finally show ?thesis .
qed

lemma skip_ws_dec: "list_all isspace ws \<Longrightarrow> dropWhile isspace (ws @ dec_digits n @ r) = dec_digits n @ r"
  by (rule skip_ws) (simp_all add: isdigit_not_space[OF hd_dec_digits])

lemma skipComments_dec: "skipComments (dec_digits n @ r) = (0, dec_digits n @ r)"
proof -
  obtain a ds where ad: "dec_digits n = a # ds"
    using dec_digits_nonempty[of n] by (cases "dec_digits n") auto
  with dec_digits_isdigit[of n] have "isdigit a" by simp
  then have "a \<noteq> byte CHR ''#''" by (simp add: isdigit_not_sign)
  then show ?thesis
    unfolding skipComments_def ad
    by (subst skipComments_loop.simps) (simp add: fscanf_comment_def)
qed

lemma fscanf_d_sp_dec:
  assumes "list_all isspace ws" and "ws \<noteq> []" and "r = [] \<or> \<not> isspace (hd r)"
  shows "fscanf_d_sp (dec_digits n @ ws @ r) = (Some (store_d (int n)), r)"
proof -
  have "\<not> isdigit (hd (ws @ r))"
    using assms(1,2) by (cases ws) (simp_all add: isspace_not_digit)
  then have "scan_d (dec_digits n @ ws @ r) = (Some (store_d (int n)), ws @ r)"
    by (intro scan_d_dec) simp
  then show ?thesis
    by (simp add: fscanf_d_sp_def skip_ws[OF assms(1,3)])
qed



lemma print_nonneg: "0 \<le> v \<Longrightarrow> print_d v = dec_digits (nat v)"
  by (simp add: print_d_def)

lemma print_u_maxval: "0 < m \<Longrightarrow> m \<le> 255 \<Longrightarrow> print_u (of_int m) = dec_digits (nat m)"
proof -
  assume m: "0 < m" "m \<le> 255"
  have "uint (of_int m :: uint8) = m" by (rule maxval_uint8(1)[OF m])
  then have "unat (of_int m :: uint8) = nat m" by (simp add: unat_eq_nat_uint)
  then show ?thesis by (simp add: print_u_def)
qed

lemma ImageSave_Written:
  assumes d: "deref s img = Some I" and wf: "wf_image I"
  shows "ImageSave Written s img filename =
     Some (1, s\<lparr>errCause := [], files := (files s)(filename := Some (pgm_bytes I))\<rparr>)"
proof -
  from wf have len: "int (length (pixel I)) = width I * height I"
    and dims: "0 \<le> width I" "0 \<le> height I"
    by (simp_all add: wf_image_def)
  then have n: "nat (width I * height I) = length (pixel I)" "0 \<le> width I * height I"
    by simp_all
  show ?thesis
    using d n
    by (simp add: ImageSave_def check_def c_assert_def Let_def pgm_bytes_def)
qed

lemma no_ws_dec: "dropWhile isspace (dec_digits n @ r) = dec_digits n @ r"
  using skip_ws_dec[of "[]" n r] by simp

lemma ImageLoad_pgm_bytes:
  assumes f: "files s filename = Some (pgm_bytes I)" and wf: "wf_image I"
    and q: "q \<noteq> NULL"
    and range: "width I < 2 ^ 31" "height I < 2 ^ 31"
  shows "ImageLoad (Allocated q) s filename =
     Some (q, s\<lparr>errCause := [], heap := (heap s)(q := Some I)\<rparr>)"
proof -
  from wf have len: "int (length (pixel I)) = width I * height I"
    and dims: "0 \<le> width I" "0 \<le> height I" "0 < maxval I" "maxval I \<le> 255"
    by (simp_all add: wf_image_def)
  define w h m where "w = nat (width I)" and "h = nat (height I)" and "m = nat (maxval I)"
  have whm: "width I = int w" "height I = int h" "maxval I = int m"
    using dims by (simp_all add: w_def h_def m_def)
  let ?f5 = "newline # pixel I"
  let ?f4 = "dec_digits m @ ?f5"
  let ?f3 = "dec_digits h @ [newline] @ ?f4"
  let ?f2 = "dec_digits w @ [byte CHR '' ''] @ ?f3"
  have bytes: "pgm_bytes I = [byte CHR ''P'', byte CHR ''5''] @ [newline] @ ?f2"
    using dims by (simp add: pgm_bytes_def print_nonneg print_u_maxval w_def h_def m_def)
  have nl: "list_all isspace [newline]" "list_all isspace [byte CHR '' '']"
    by (simp_all add: isspace_def newline_def byte_def)
  have 1: "fscanf_P_c ([byte CHR ''P'', byte CHR ''5''] @ [newline] @ ?f2) = (Some (byte CHR ''5''), ?f2)"
    using nl(1) by (simp add: fscanf_P_c_def no_ws_dec)
  have st: "store_d (int w) = int w" "store_d (int h) = int h" "store_d (int m) = int m"
    using dims range whm by (simp_all add: store_d_id)
  have 3: "fscanf_d_sp ?f2 = (Some (int w), ?f3)"
    by (subst st(1)[symmetric], rule fscanf_d_sp_dec[OF nl(2)]) (simp_all add: isdigit_not_space[OF hd_dec_digits])
  have 5: "fscanf_d_sp ?f3 = (Some (int h), ?f4)"
    by (subst st(2)[symmetric], rule fscanf_d_sp_dec[OF nl(1)]) (simp_all add: isdigit_not_space[OF hd_dec_digits])
  have nd: "\<not> isdigit newline" using nl(1) by (simp add: isspace_not_digit)
  have 7: "fscanf_d ?f4 = (Some (int m), ?f5)"
    unfolding fscanf_d_def by (subst st(3)[symmetric], rule scan_d_dec) (simp add: nd)
  have 8: "fscanf_c ?f5 = (Some newline, pixel I)"
    by (simp add: fscanf_c_def)
  have create: "ImageCreate (Allocated q) (int w) (int h) (of_int (int m)) t =
     Some (q, t\<lparr>heap := (heap t)(q := Some \<lparr>width = int w, height = int h, maxval = int m,
                                            pixel = replicate (nat (int w * int h)) 0\<rparr>)\<rparr>)" for t
    using dims whm by (intro ImageCreate_Allocated) simp_all
  have got: "take (nat (int w * int h)) (pixel I) = pixel I"
    using len whm by simp
  have I: "\<lparr>width = int w, height = int h, maxval = int m, pixel = pixel I\<rparr> = I"
    using whm by simp
  have mv: "0 < int m" "int m \<le> uint PixMax"
    using dims whm by (simp_all add: PixMax_def)
  have chain: "ImageLoad_chain (Allocated q) s filename =
      Some (True, q, s\<lparr>errCause := [], heap := (heap s)(q := Some I)\<rparr>)"
    unfolding ImageLoad_chain_def f bytes
    using q nl(1) len whm(1,2) mv
    by (simp add: 1 3 5 7 8 skipComments_dec check_def create deref_def got I
          del: append.simps of_int_of_nat_eq)
  show ?thesis
    unfolding ImageLoad_def chain by simp
qed












text \<open>
  Claim C6. Saving a well-formed image writes \<^verbatim>\<open>P5\<close>, a newline, the width, a space, the
  height, a newline, the maxval, a newline and the raster; when the writes succeed, loading
  that file, when the allocations succeed, returns a new image equal to the saved one in
  width, height, maxval and every sample. The fields \<^verbatim>\<open>width\<close> and \<^verbatim>\<open>height\<close> of the struct
  are of type \<^verbatim>\<open>int\<close>: their values are below \<open>2^31\<close>.
\<close>

theorem save_load_roundtrip:
  assumes d: "deref s img = Some I" and wf: "wf_image I"
    and fresh: "alloc_fresh s (Allocated q)"
    and range: "width I < 2 ^ 31" "height I < 2 ^ 31"
  shows "\<exists>s1 s2. ImageSave Written s img filename = Some (1, s1)
       \<and> files s1 filename = Some (pgm_bytes I)
       \<and> ImageLoad (Allocated q) s1 filename = Some (q, s2)
       \<and> heap s2 q = Some I \<and> heap s2 img = Some I \<and> ImageErrMsg s2 = []"
proof -
  from fresh have q: "q \<noteq> NULL" "heap s q = None" by (simp_all add: alloc_fresh_def)
  from d have h: "img \<noteq> NULL" "heap s img = Some I" by (simp_all add: deref_SomeD)
  with q have ne: "img \<noteq> q" by auto
  define s1 where "s1 = s\<lparr>errCause := [], files := (files s)(filename := Some (pgm_bytes I))\<rparr>"
  define s2 where "s2 = s1\<lparr>errCause := [], heap := (heap s1)(q := Some I)\<rparr>"
  have save: "ImageSave Written s img filename = Some (1, s1)"
    unfolding s1_def by (rule ImageSave_Written[OF d wf])
  have f: "files s1 filename = Some (pgm_bytes I)" by (simp add: s1_def)
  have load: "ImageLoad (Allocated q) s1 filename = Some (q, s2)"
    unfolding s2_def by (rule ImageLoad_pgm_bytes[OF f wf q(1) range])
  have "heap s2 q = Some I" "heap s2 img = Some I" "ImageErrMsg s2 = []"
    using h ne by (simp_all add: s2_def s1_def ImageErrMsg_def)
  with save f load show ?thesis by blast
qed

theorem save_load_roundtrip_witness:
  "wf_image \<lparr>width = 2, height = 1, maxval = 255, pixel = [17, 200]\<rparr>
   \<and> pgm_bytes \<lparr>width = 2, height = 1, maxval = 255, pixel = [17, 200]\<rparr>
       = [0x50, 0x35, 0x0A, 0x32, 0x20, 0x31, 0x0A, 0x32, 0x35, 0x35, 0x0A, 17, 200]
   \<and> (\<exists>s1 s2. ImageSave Written
          \<lparr>heap = (\<lambda>_. None)(1 := Some \<lparr>width = 2, height = 1, maxval = 255, pixel = [17, 200]\<rparr>),
           errCause = [], files = (\<lambda>_. None)\<rparr> 1 ''a.pgm'' = Some (1, s1)
       \<and> files s1 ''a.pgm'' = Some [0x50, 0x35, 0x0A, 0x32, 0x20, 0x31, 0x0A, 0x32, 0x35, 0x35, 0x0A, 17, 200]
       \<and> ImageLoad (Allocated 2) s1 ''a.pgm'' = Some (2, s2)
       \<and> heap s2 2 = Some \<lparr>width = 2, height = 1, maxval = 255, pixel = [17, 200]\<rparr>)"
proof -
  let ?I = "\<lparr>width = 2, height = 1, maxval = 255, pixel = [17, 200 :: uint8]\<rparr>"
  let ?s = "\<lparr>heap = (\<lambda>_. None)(1 := Some ?I), errCause = [], files = (\<lambda>_. None)\<rparr>"
  have wf: "wf_image ?I" by (simp add: wf_image_def)
  have d: "deref ?s 1 = Some ?I" by (simp add: deref_def NULL_def)
  have fresh: "alloc_fresh ?s (Allocated 2)" by (simp add: alloc_fresh_def NULL_def)
  have b: "pgm_bytes ?I = [0x50, 0x35, 0x0A, 0x32, 0x20, 0x31, 0x0A, 0x32, 0x35, 0x35, 0x0A, 17, 200]"
    by (simp add: pgm_bytes_def print_d_def print_u_def dec_digits.simps byte_def newline_def)
  have range: "width ?I < 2 ^ 31" "height ?I < 2 ^ 31" by simp_all
  from save_load_roundtrip[OF d wf fresh range, of "''a.pgm''"] obtain s1 s2 where
    "ImageSave Written ?s 1 ''a.pgm'' = Some (1, s1)"
    "files s1 ''a.pgm'' = Some (pgm_bytes ?I)"
    "ImageLoad (Allocated 2) s1 ''a.pgm'' = Some (2, s2)"
    "heap s2 2 = Some ?I"
    by blast
  with wf b show ?thesis by (intro conjI exI[of _ s1] exI[of _ s2]) simp_all
qed

end
